theory Spec2Isabelle
  imports Complex_Main "HOL-Library.Monad_Syntax"
begin

section \<open>Tensors as lists\<close>

text \<open>
  The program works on TensorFlow tensors. A vector is a list, a matrix is the list of
  its rows. Bond orders are \<open>float32\<close> in the source; every value the program writes is
  a small multiple of one half or a quotient of such sums, and the model computes with
  exact rationals. Atom indices are \<open>int64\<close> and may become \<open>-1\<close>, so they are \<open>int\<close>.
\<close>

type_synonym matrix = "rat list list"

text \<open>\<open>tf.boolean_mask(xs, mask)\<close>: the entries of \<open>xs\<close> whose mask entry is true.\<close>

definition boolean_mask :: "'a list \<Rightarrow> bool list \<Rightarrow> 'a list" where
  "boolean_mask xs flags = map fst (filter snd (zip xs flags))"

definition logical_and :: "bool list \<Rightarrow> bool list \<Rightarrow> bool list" where
  "logical_and xs ys = map2 (\<and>) xs ys"

definition logical_or :: "bool list \<Rightarrow> bool list \<Rightarrow> bool list" where
  "logical_or xs ys = map2 (\<or>) xs ys"

text \<open>
  \<open>tf.reduce_any(tf.reshape(tf.concat(rows, axis=0), [-1, n]), axis=0)\<close>: the rows all
  have length \<open>n\<close>, and entry \<open>j\<close> of the result says whether some row is true at \<open>j\<close>.
\<close>

definition reduce_any_rows :: "bool list list \<Rightarrow> nat \<Rightarrow> bool list" where
  "reduce_any_rows rows n = map (\<lambda>j. list_ex (\<lambda>r. r ! j) rows) [0..<n]"

definition count_nonzero :: "bool list \<Rightarrow> nat" where
  "count_nonzero flags = length (filter (\<lambda>b. b) flags)"

text \<open>Number of columns of a matrix given by its rows (\<open>tf.shape(m)[1]\<close>).\<close>

definition ncols :: "'a list list \<Rightarrow> nat" where
  "ncols m = (case m of [] \<Rightarrow> 0 | r # _ \<Rightarrow> length r)"

section \<open>Hydrogen completion (\<open>gin/deterministic/hydrogen.py\<close>)\<close>

text \<open>
  \<open>typing.TypingGAFF(mol)\<close> is not part of the sources at hand. \<open>add_hydrogen\<close> only
  reads boolean flag vectors from it, one entry per heavy atom; the model takes them as a
  parameter.
\<close>

record typing =
  is_carbon :: "bool list"
  is_nitrogen :: "bool list"
  is_oxygen :: "bool list"
  is_sulfur :: "bool list"
  is_phosphorus :: "bool list"
  is_sp1 :: "bool list"
  is_sp2 :: "bool list"
  is_sp3 :: "bool list"
  is_connected_to_1_heavy :: "bool list"
  is_connected_to_2_heavy :: "bool list"
  is_connected_to_3_heavy :: "bool list"

definition has_one :: "typing \<Rightarrow> nat \<Rightarrow> bool list" where
  "has_one t n = reduce_any_rows
     [ logical_and (is_carbon t) (logical_and (is_sp3 t) (is_connected_to_3_heavy t)),
       logical_and (is_carbon t) (logical_and (is_sp2 t) (is_connected_to_2_heavy t)),
       logical_and (is_carbon t) (logical_and (is_sp1 t) (is_connected_to_1_heavy t)),
       logical_and (logical_or (is_nitrogen t) (is_phosphorus t))
                   (logical_and (is_sp3 t) (is_connected_to_2_heavy t)),
       logical_and (logical_or (is_nitrogen t) (is_phosphorus t))
                   (logical_and (is_sp2 t) (is_connected_to_1_heavy t)),
       logical_and (logical_or (is_oxygen t) (is_sulfur t)) (is_sp3 t) ] n"

definition has_two :: "typing \<Rightarrow> nat \<Rightarrow> bool list" where
  "has_two t n = reduce_any_rows
     [ logical_and (is_carbon t) (logical_and (is_sp3 t) (is_connected_to_2_heavy t)),
       logical_and (is_carbon t) (logical_and (is_sp2 t) (is_connected_to_1_heavy t)),
       logical_and (logical_or (is_nitrogen t) (is_phosphorus t))
                   (logical_and (is_sp3 t) (is_connected_to_1_heavy t)) ] n"

definition has_three :: "typing \<Rightarrow> bool list" where
  "has_three t = logical_and (is_carbon t) (logical_and (is_sp3 t) (is_connected_to_1_heavy t))"

text \<open>
  The column \<open>new_line\<close> of the loop bodies: one where the row index is the heavy atom,
  zero elsewhere.
\<close>

definition new_line :: "nat \<Rightarrow> nat \<Rightarrow> rat list" where
  "new_line n idx = map (\<lambda>i. if i = idx then 1 else 0) [0..<n]"

text \<open>\<open>tf.concat([block, col, ...], axis=1)\<close> with the same column \<open>k\<close> times.\<close>

definition append_cols :: "nat \<Rightarrow> matrix \<Rightarrow> rat list \<Rightarrow> matrix" where
  "append_cols k block col = map2 (\<lambda>row x. row @ replicate k x) block col"

definition one_body :: "nat \<Rightarrow> nat list \<Rightarrow> matrix \<Rightarrow> nat \<Rightarrow> matrix" where
  "one_body n one_idxs hydrogen_block idx = append_cols 1 hydrogen_block (new_line n (one_idxs ! idx))"

definition two_body :: "nat \<Rightarrow> nat list \<Rightarrow> matrix \<Rightarrow> nat \<Rightarrow> matrix" where
  "two_body n two_idxs hydrogen_block idx = append_cols 2 hydrogen_block (new_line n (two_idxs ! idx))"

definition three_body :: "nat \<Rightarrow> nat list \<Rightarrow> matrix \<Rightarrow> nat \<Rightarrow> matrix" where
  "three_body n three_idxs hydrogen_block idx =
     append_cols 3 hydrogen_block (new_line n (three_idxs ! idx))"

text \<open>
  The three \<open>tf.while_loop\<close>s count \<open>idx\<close> from zero up to the number of true flags and
  thread \<open>hydrogen_block\<close> through the body; the loop is a left fold over the counter.
\<close>

definition hydrogen_block :: "typing \<Rightarrow> nat \<Rightarrow> matrix" where
  "hydrogen_block t n =
     (let one_idxs = boolean_mask [0..<n] (has_one t n);
          two_idxs = boolean_mask [0..<n] (has_two t n);
          three_idxs = boolean_mask [0..<n] (has_three t);
          block = replicate n [-1];
          block = foldl (one_body n one_idxs) block [0..<count_nonzero (has_one t n)];
          block = foldl (two_body n two_idxs) block [0..<count_nonzero (has_two t n)];
          block = foldl (three_body n three_idxs) block [0..<count_nonzero (has_three t)]
      in map tl block)"

definition add_hydrogen :: "int list \<times> matrix \<Rightarrow> typing \<Rightarrow> int list \<times> matrix" where
  "add_hydrogen mol t =
     (let atoms = fst mol;
          adjacency_map = snd mol;
          n_atoms = length atoms;
          block = hydrogen_block t n_atoms;
          n_hydrogens = ncols block;
          atoms = atoms @ replicate n_hydrogens 9;
          adjacency_map = map2 (@) adjacency_map block;
          adjacency_map = adjacency_map @ replicate n_hydrogens (replicate (n_atoms + n_hydrogens) 0)
      in (atoms, adjacency_map))"

text \<open>
  The heavy atom each appended hydrogen column belongs to, in column order: the atoms with
  one hydrogen once, then the atoms with two hydrogens twice each, then the atoms with
  three hydrogens three times each.
\<close>

definition hydrogen_parents :: "typing \<Rightarrow> nat \<Rightarrow> nat list" where
  "hydrogen_parents t n =
     boolean_mask [0..<n] (has_one t n)
     @ concat (map (replicate 2) (boolean_mask [0..<n] (has_two t n)))
     @ concat (map (replicate 3) (boolean_mask [0..<n] (has_three t)))"

text \<open>The flag vectors of a classification of \<open>n\<close> atoms all have \<open>n\<close> entries.\<close>

definition typing_shape :: "typing \<Rightarrow> nat \<Rightarrow> bool" where
  "typing_shape t n \<longleftrightarrow>
     length (is_carbon t) = n \<and> length (is_nitrogen t) = n \<and> length (is_oxygen t) = n \<and>
     length (is_sulfur t) = n \<and> length (is_phosphorus t) = n \<and> length (is_sp1 t) = n \<and>
     length (is_sp2 t) = n \<and> length (is_sp3 t) = n \<and>
     length (is_connected_to_1_heavy t) = n \<and> length (is_connected_to_2_heavy t) = n \<and>
     length (is_connected_to_3_heavy t) = n"

definition square :: "matrix \<Rightarrow> nat \<Rightarrow> bool" where
  "square m n \<longleftrightarrow> length m = n \<and> list_all (\<lambda>row. length row = n) m"

subsection \<open>Two classified molecules\<close>

text \<open>Methane: one sp3 carbon with no heavy neighbour.\<close>

definition methane_typing :: typing where
  "methane_typing = \<lparr> is_carbon = [True], is_nitrogen = [False], is_oxygen = [False],
     is_sulfur = [False], is_phosphorus = [False], is_sp1 = [False], is_sp2 = [False],
     is_sp3 = [True], is_connected_to_1_heavy = [False], is_connected_to_2_heavy = [False],
     is_connected_to_3_heavy = [False] \<rparr>"

text \<open>Ethane: two sp3 carbons, each with one heavy neighbour.\<close>

definition ethane_typing :: typing where
  "ethane_typing = \<lparr> is_carbon = [True, True], is_nitrogen = [False, False],
     is_oxygen = [False, False], is_sulfur = [False, False], is_phosphorus = [False, False],
     is_sp1 = [False, False], is_sp2 = [False, False], is_sp3 = [True, True],
     is_connected_to_1_heavy = [True, True], is_connected_to_2_heavy = [False, False],
     is_connected_to_3_heavy = [False, False] \<rparr>"

section \<open>SMILES decoding (\<open>gin/i_o/from_smiles.py\<close>)\<close>

subsection \<open>Tensor operations that can fail\<close>

text \<open>
  \<open>tf.gather\<close>, \<open>tf.gather_nd\<close> and \<open>scatter_nd_update\<close> raise on the CPU kernels when
  an index is out of range, and \<open>scatter_nd_update\<close> raises when the numbers of indices
  and of updates differ. The model returns \<open>None\<close> there. Updates are applied in the order
  of the index list, so the last update of a repeated index stays.
\<close>

definition valid_index :: "matrix \<Rightarrow> int \<times> int \<Rightarrow> bool" where
  "valid_index m ij \<longleftrightarrow>
     0 \<le> fst ij \<and> nat (fst ij) < length m \<and> 0 \<le> snd ij \<and> nat (snd ij) < length (m ! nat (fst ij))"

definition entry :: "matrix \<Rightarrow> int \<times> int \<Rightarrow> rat" where
  "entry m ij = m ! nat (fst ij) ! nat (snd ij)"

definition update_entry :: "matrix \<Rightarrow> (int \<times> int) \<times> rat \<Rightarrow> matrix" where
  "update_entry m u = m[nat (fst (fst u)) := (m ! nat (fst (fst u)))[nat (snd (fst u)) := snd u]]"

definition scatter_nd_update :: "matrix \<Rightarrow> (int \<times> int) list \<Rightarrow> rat list \<Rightarrow> matrix option" where
  "scatter_nd_update m idxs updates =
     (if length idxs = length updates \<and> list_all (valid_index m) idxs
      then Some (foldl update_entry m (zip idxs updates)) else None)"

definition gather_nd :: "matrix \<Rightarrow> (int \<times> int) list \<Rightarrow> rat list option" where
  "gather_nd m idxs = (if list_all (valid_index m) idxs then Some (map (entry m) idxs) else None)"

definition gather :: "'a list \<Rightarrow> nat list \<Rightarrow> 'a list option" where
  "gather xs idxs = (if list_all (\<lambda>i. i < length xs) idxs then Some (map (\<lambda>i. xs ! i) idxs) else None)"

text \<open>\<open>tf.gather(tf.gather(m, idxs, axis=0), idxs, axis=1)\<close>: the sub-matrix on \<open>idxs\<close>.\<close>

definition gather_square :: "matrix \<Rightarrow> nat list \<Rightarrow> matrix option" where
  "gather_square m idxs =
     (if list_all (\<lambda>i. i < length m \<and> list_all (\<lambda>row. i < length row) m) idxs
      then Some (map (\<lambda>i. map (\<lambda>j. m ! i ! j) idxs) idxs) else None)"

text \<open>\<open>tf.reshape(tf.where(flags), [-1])\<close>: the positions of the true flags.\<close>

definition where_true :: "bool list \<Rightarrow> nat list" where
  "where_true flags = boolean_mask [0..<length flags] flags"

subsection \<open>Strings\<close>

text \<open>
  \<open>tf.strings.regex_replace(input, pattern, rewrite)\<close> for the patterns of this file, which
  are all alternations of literal strings: scanning from the left, at each position the
  first alternative that matches there is replaced and the scan goes on behind it.
  \<open>skip\<close> counts the characters of a match still to be dropped.
\<close>

definition starts_with :: "string \<Rightarrow> string \<Rightarrow> bool" where
  "starts_with s p \<longleftrightarrow> take (length p) s = p"

fun replace_from :: "string list \<Rightarrow> string \<Rightarrow> nat \<Rightarrow> string \<Rightarrow> string" where
  "replace_from pats rewrite skip [] = []"
| "replace_from pats rewrite (Suc skip) (c # cs) = replace_from pats rewrite skip cs"
| "replace_from pats rewrite 0 (c # cs) =
     (case find (starts_with (c # cs)) pats of
        Some p \<Rightarrow> rewrite @ replace_from pats rewrite (length p - 1) cs
      | None \<Rightarrow> c # replace_from pats rewrite 0 cs)"

definition regex_replace :: "string \<Rightarrow> string list \<Rightarrow> string \<Rightarrow> string" where
  "regex_replace input pats rewrite = replace_from pats rewrite 0 input"

definition whitespace :: "char \<Rightarrow> bool" where
  "whitespace c \<longleftrightarrow> c \<in> set [CHR '' '', CHR 0x09, CHR 0x0A, CHR 0x0B, CHR 0x0C, CHR 0x0D]"

definition strip :: "string \<Rightarrow> string" where
  "strip s = rev (dropWhile whitespace (rev (dropWhile whitespace s)))"

text \<open>\<open>tf.strings.to_number\<close> on one byte: a decimal digit, or an error.\<close>

definition to_number :: "char \<Rightarrow> int option" where
  "to_number c = map_of (zip ''0123456789'' (map int [0..<10])) c"

fun those_numbers :: "char list \<Rightarrow> int list option" where
  "those_numbers [] = Some []"
| "those_numbers (c # cs) =
     (case to_number c of None \<Rightarrow> None
      | Some k \<Rightarrow> (case those_numbers cs of None \<Rightarrow> None | Some ks \<Rightarrow> Some (k # ks)))"

subsection \<open>Constants\<close>

definition ORGANIC_ATOMS :: "string list" where
  "ORGANIC_ATOMS = map (\<lambda>c. [c]) ''CcNnOoSsPpFRLI''"

definition TOPOLOGY_MARKS :: "string list" where
  "TOPOLOGY_MARKS = map (\<lambda>c. [c]) ''=#()123456789''"

definition N_ATOM_COUNTER :: "string list" where
  "N_ATOM_COUNTER = TOPOLOGY_MARKS @ map (\<lambda>c. [c]) (''lr[]@H/'' @ [CHR 0x5C])"

subsection \<open>Normalizer and chain builder\<close>

definition eye :: "nat \<Rightarrow> matrix" where
  "eye n = map (\<lambda>i. map (\<lambda>j. if i = j then 1 else 0) [0..<n]) [0..<n]"

text \<open>\<open>tf.eye(n_atoms + 1)[1:, :-1]\<close>: drop the first row and the last column.\<close>

definition initial_adjacency_map :: "nat \<Rightarrow> matrix" where
  "initial_adjacency_map n_atoms = map butlast (tl (eye (n_atoms + 1)))"

definition count_atoms :: "string \<Rightarrow> nat" where
  "count_atoms smiles = length (regex_replace smiles N_ATOM_COUNTER [])"

text \<open>The rewriting of the longer notations: \<open>Br\<close>, \<open>Cl\<close>, chiral marks, \<open>[nH]\<close>, slashes.\<close>

definition normalize :: "string \<Rightarrow> string" where
  "normalize smiles =
     (let smiles = regex_replace smiles [''Br''] ''R'';
          smiles = regex_replace smiles [''Cl''] ''L'';
          smiles = regex_replace smiles [''[C@H]'', ''[C@@H]'', ''[C@]'', ''[C@@]''] ''C'';
          smiles = regex_replace smiles [''[nH]''] ''n'';
          smiles = regex_replace smiles [''/''] [];
          smiles = regex_replace smiles [[CHR 0x5C]] []
      in smiles)"

definition atoms_only :: "string \<Rightarrow> string" where
  "atoms_only smiles = regex_replace smiles TOPOLOGY_MARKS []"

definition atom_codes :: "string \<Rightarrow> int list option" where
  "atom_codes smiles_atoms_only =
     (let s = regex_replace smiles_atoms_only [''C'', ''c''] ''0'';
          s = regex_replace s [''N'', ''n''] ''1'';
          s = regex_replace s [''O'', ''o''] ''2'';
          s = regex_replace s [''S'', ''s''] ''3'';
          s = regex_replace s [''P'', ''p''] ''4'';
          s = regex_replace s [''F''] ''5'';
          s = regex_replace s [''L''] ''6'';
          s = regex_replace s [''R''] ''7'';
          s = regex_replace s [''I''] ''8''
      in those_numbers s)"

definition aromatic_idxs_of :: "string \<Rightarrow> nat list" where
  "aromatic_idxs_of smiles_atoms_only =
     where_true (map (\<lambda>c. c = CHR ''A'')
       (regex_replace smiles_atoms_only [''c'', ''n'', ''o'', ''p''] ''A''))"

text \<open>
  The topology stream: atoms become the filler \<open>0\<close>, everything else stays. The marks are
  the characters that are not the filler; the anchor of the \<open>k\<close>-th mark, at position
  \<open>p\<close>, is \<open>p - k - 1\<close>.
\<close>

definition topology_only :: "string \<Rightarrow> string" where
  "topology_only smiles = regex_replace smiles ORGANIC_ATOMS ''0''"

definition topology_positions :: "string \<Rightarrow> nat list" where
  "topology_positions smiles_topology_only =
     where_true (map (\<lambda>c. c \<noteq> CHR ''0'') smiles_topology_only)"

definition topology_chrs_of :: "string \<Rightarrow> char list" where
  "topology_chrs_of smiles_topology_only =
     map (\<lambda>p. smiles_topology_only ! p) (topology_positions smiles_topology_only)"

definition topology_idxs_of :: "string \<Rightarrow> int list" where
  "topology_idxs_of smiles_topology_only =
     map2 (\<lambda>p k. int p - int k - 1) (topology_positions smiles_topology_only)
       [0..<length (topology_positions smiles_topology_only)]"

text \<open>The anchors of the marks that are the character \<open>c\<close>.\<close>

definition anchors_of :: "char \<Rightarrow> char list \<Rightarrow> int list \<Rightarrow> int list" where
  "anchors_of c topology_chrs topology_idxs =
     map (\<lambda>k. topology_idxs ! k) (where_true (map (\<lambda>x. x = c) topology_chrs))"

text \<open>A left fold whose step can fail: the loop stops with the error.\<close>

fun foldl_option :: "('s \<Rightarrow> 'a \<Rightarrow> 's option) \<Rightarrow> 's \<Rightarrow> 'a list \<Rightarrow> 's option" where
  "foldl_option f s [] = Some s"
| "foldl_option f s (x # xs) = (case f s x of None \<Rightarrow> None | Some s' \<Rightarrow> foldl_option f s' xs)"

subsection \<open>Bond orders\<close>

text \<open>
  Every \<open>=\<close> with anchor \<open>a\<close> writes 2 at \<open>(a, a + 1)\<close>; afterwards every \<open>#\<close> writes 3.
\<close>

definition bond_order_stage :: "matrix \<Rightarrow> char list \<Rightarrow> int list \<Rightarrow> matrix option" where
  "bond_order_stage adjacency_map topology_chrs topology_idxs =
     (let double_bond_idxs = anchors_of (CHR ''='') topology_chrs topology_idxs;
          triple_bond_idxs = anchors_of (CHR ''#'') topology_chrs topology_idxs
      in do {
        m \<leftarrow> scatter_nd_update adjacency_map (map (\<lambda>a. (a, a + 1)) double_bond_idxs)
               (map (\<lambda>a. 2) double_bond_idxs);
        scatter_nd_update m (map (\<lambda>a. (a, a + 1)) triple_bond_idxs)
               (map (\<lambda>a. 3) triple_bond_idxs)
      })"

subsection \<open>Branches\<close>

text \<open>
  The state of the scan is the queue of the positions of the open left brackets and the
  recorded pairs, which start with the placeholder row \<open>(-1, -1)\<close>. Reading the last
  element of an empty queue raises.
\<close>

type_synonym bracket_state = "nat list \<times> (int \<times> int) list"

definition if_left :: "nat \<Rightarrow> bracket_state \<Rightarrow> bracket_state" where
  "if_left idx st = (fst st @ [idx], snd st)"

definition if_right :: "int list \<Rightarrow> nat \<Rightarrow> bracket_state \<Rightarrow> bracket_state option" where
  "if_right topology_idxs idx st =
     (if fst st = [] then None
      else let right_idx = topology_idxs ! idx;
               left_idx = topology_idxs ! last (fst st)
           in Some (butlast (fst st), snd st @ [(left_idx, right_idx)]))"

definition bracket_body :: "char list \<Rightarrow> int list \<Rightarrow> bracket_state \<Rightarrow> nat \<Rightarrow> bracket_state option" where
  "bracket_body topology_chrs topology_idxs st idx =
     (let chr_flag = topology_chrs ! idx;
          st = (if chr_flag = CHR ''('' then if_left idx st else st)
      in if chr_flag = CHR '')'' then if_right topology_idxs idx st else Some st)"

definition bracket_pairs_of :: "char list \<Rightarrow> int list \<Rightarrow> (int \<times> int) list option" where
  "bracket_pairs_of topology_chrs topology_idxs =
     map_option (\<lambda>st. tl (snd st))
       (foldl_option (bracket_body topology_chrs topology_idxs) ([], [(-1, -1)])
          [0..<length topology_idxs])"

text \<open>
  \<open>tf.where\<close> on the matrix of the differences \<open>left[c] - right[r]\<close>, row \<open>r\<close>, column
  \<open>c\<close>: the positions of the zeros, row by row.
\<close>

definition left_right_overlaps :: "int list \<Rightarrow> int list \<Rightarrow> (nat \<times> nat) list" where
  "left_right_overlaps left_bracket_idxs right_bracket_idxs =
     concat (map (\<lambda>r. map (\<lambda>c. (r, c))
                (filter (\<lambda>c. left_bracket_idxs ! c - right_bracket_idxs ! r = 0)
                   [0..<length left_bracket_idxs]))
             [0..<length right_bracket_idxs])"

definition process_right_left_overlap :: "int list \<Rightarrow> nat \<times> nat \<Rightarrow> int list" where
  "process_right_left_overlap left_bracket_idxs left_right_overlap =
     map (\<lambda>i. if i = snd left_right_overlap then left_bracket_idxs ! fst left_right_overlap
               else left_bracket_idxs ! i)
       [0..<length left_bracket_idxs]"

text \<open>The right markers that are kept, and the left anchors after the overlap pass.\<close>

definition kept_right_bracket_idxs :: "nat \<Rightarrow> (int \<times> int) list \<Rightarrow> int list" where
  "kept_right_bracket_idxs n_atoms bracket_pairs =
     filter (\<lambda>r. r \<noteq> int n_atoms - 1) (map snd bracket_pairs)"

definition corrected_left_bracket_idxs :: "nat \<Rightarrow> (int \<times> int) list \<Rightarrow> int list" where
  "corrected_left_bracket_idxs n_atoms bracket_pairs =
     (let right_bracket_idxs = kept_right_bracket_idxs n_atoms bracket_pairs;
          left_bracket_idxs = take (length right_bracket_idxs) (map fst bracket_pairs)
      in foldl process_right_left_overlap left_bracket_idxs
           (left_right_overlaps left_bracket_idxs right_bracket_idxs))"

definition rewire :: "matrix \<Rightarrow> int list \<Rightarrow> int list \<Rightarrow> matrix option" where
  "rewire adjacency_map left_bracket_idxs right_bracket_idxs =
     (let current_bond_idxs = map (\<lambda>r. (r, r + 1)) right_bracket_idxs;
          new_bond_idxs = map2 (\<lambda>l r. (l, r + 1)) left_bracket_idxs right_bracket_idxs
      in do {
        current_bond_order \<leftarrow> gather_nd adjacency_map current_bond_idxs;
        m \<leftarrow> scatter_nd_update adjacency_map current_bond_idxs (map (\<lambda>x. 0) current_bond_order);
        scatter_nd_update m new_bond_idxs current_bond_order
      })"

definition branch_stage :: "nat \<Rightarrow> matrix \<Rightarrow> char list \<Rightarrow> int list \<Rightarrow> matrix option" where
  "branch_stage n_atoms adjacency_map topology_chrs topology_idxs =
     do {
       bracket_pairs \<leftarrow> bracket_pairs_of topology_chrs topology_idxs;
       rewire adjacency_map (corrected_left_bracket_idxs n_atoms bracket_pairs)
         (kept_right_bracket_idxs n_atoms bracket_pairs)
     }"

text \<open>One row of the overlap matrix, and the pass row by row.\<close>

definition overlap_row :: "int list \<Rightarrow> int list \<Rightarrow> nat \<Rightarrow> (nat \<times> nat) list" where
  "overlap_row ls rs r = map (\<lambda>c. (r, c)) (filter (\<lambda>c. ls ! c - rs ! r = 0) [0..<length ls])"

definition overlap_step :: "int list \<Rightarrow> int list \<Rightarrow> int list \<Rightarrow> nat \<Rightarrow> int list" where
  "overlap_step ls rs l r = foldl process_right_left_overlap l (overlap_row ls rs r)"

subsection \<open>Rings\<close>

definition connection_chrs :: "char list" where
  "connection_chrs = ''123456''"

definition max_iter :: nat where
  "max_iter = 5"

text \<open>
  The pairs of one digit: the sorted anchors \<open>c\<close>, and for every \<open>j < i\<close> the pair
  \<open>(c[j], c[i])\<close>, in the order of \<open>tf.where\<close> on the strict lower triangle.
\<close>

definition ring_pairs :: "int list \<Rightarrow> (int \<times> int) list" where
  "ring_pairs connection_idxs =
     concat (map (\<lambda>i. map (\<lambda>j. (connection_idxs ! j, connection_idxs ! i)) [0..<i])
             [0..<length connection_idxs])"

type_synonym ring_state = "(int \<times> int) list \<times> rat list"

definition ring_body :: "char list \<Rightarrow> int list \<Rightarrow> nat \<Rightarrow> ring_state \<Rightarrow> ring_state" where
  "ring_body topology_chrs topology_idxs idx st =
     (let connection_chr = connection_chrs ! idx;
          connection_idxs = sort (anchors_of connection_chr topology_chrs topology_idxs);
          connection_idxs = ring_pairs connection_idxs;
          bond_idxs_to_update = fst st @ connection_idxs;
          bond_orders_to_update =
            (if length connection_idxs > 0
             then snd st @ replicate (length connection_idxs) 1 else snd st)
      in (bond_idxs_to_update, bond_orders_to_update))"

function ring_loop :: "char list \<Rightarrow> int list \<Rightarrow> nat \<Rightarrow> ring_state \<Rightarrow> nat \<times> ring_state" where
  "ring_loop topology_chrs topology_idxs idx st =
     (if idx < max_iter \<and> connection_chrs ! idx \<in> set topology_chrs \<and> length topology_chrs > 0
      then ring_loop topology_chrs topology_idxs (idx + 1) (ring_body topology_chrs topology_idxs idx st)
      else (idx, st))"
  by pat_completeness auto
termination
  by (relation "measure (\<lambda>(cs, is, idx, st). max_iter - idx)") auto

declare ring_loop.simps [simp del]

definition ring_updates :: "char list \<Rightarrow> int list \<Rightarrow> ring_state" where
  "ring_updates topology_chrs topology_idxs =
     (let st = (if length topology_chrs > 0
                then snd (ring_loop topology_chrs topology_idxs 0 ([(-1, -1)], [-1]))
                else ([(-1, -1)], [-1]))
      in (tl (fst st), tl (snd st)))"

definition ring_stage :: "matrix \<Rightarrow> char list \<Rightarrow> int list \<Rightarrow> matrix option" where
  "ring_stage adjacency_map topology_chrs topology_idxs =
     scatter_nd_update adjacency_map (fst (ring_updates topology_chrs topology_idxs))
       (snd (ring_updates topology_chrs topology_idxs))"

text \<open>The pairs one digit contributes.\<close>

definition digit_pairs :: "char list \<Rightarrow> int list \<Rightarrow> nat \<Rightarrow> (int \<times> int) list" where
  "digit_pairs chrs idxs d = ring_pairs (sort (anchors_of (connection_chrs ! d) chrs idxs))"

subsection \<open>Aromaticity\<close>

text \<open>
  \<open>tf.boolean_mask\<close> with the sub-matrix of the aromatic atoms as mask keeps the
  positions \<open>(i, j)\<close> of its non-zero entries; the mesh grid stores \<open>(j, i)\<close> there, and
  gathering the atom indices and reversing the pair gives \<open>(aromatic[i], aromatic[j])\<close>.
\<close>

definition aromatic_stage :: "matrix \<Rightarrow> nat list \<Rightarrow> matrix option" where
  "aromatic_stage adjacency_map aromatic_idxs =
     do {
       aromatic_adjacency_map \<leftarrow> gather_square adjacency_map aromatic_idxs;
       let m = length aromatic_idxs;
       let aromatic_idxs_2d =
             map (\<lambda>ij. (snd ij, fst ij))
               (filter (\<lambda>ij. aromatic_adjacency_map ! fst ij ! snd ij \<noteq> 0)
                  (List.product [0..<m] [0..<m]));
       let current_bond_idxs =
             map (\<lambda>xy. (int (aromatic_idxs ! snd xy), int (aromatic_idxs ! fst xy))) aromatic_idxs_2d;
       current_bond_order \<leftarrow> gather_nd adjacency_map current_bond_idxs;
       let modified_bond_order = map (\<lambda>x. if x \<ge> 1 then x + 1 / 2 else x) current_bond_order;
       scatter_nd_update adjacency_map current_bond_idxs modified_bond_order
     }"

subsection \<open>Conjugated systems\<close>

text \<open>\<open>adjacency_map + tf.transpose(adjacency_map)\<close>, entry by entry.\<close>

definition full_adjacency_map :: "matrix \<Rightarrow> matrix" where
  "full_adjacency_map adjacency_map =
     map (\<lambda>i. map (\<lambda>j. adjacency_map ! i ! j + adjacency_map ! j ! i) [0..<length adjacency_map])
       [0..<length adjacency_map]"

text \<open>
  The candidates: the atoms with an entry 2 in their row of the full map, followed by
  the aromatic atoms, of which only carbon, nitrogen and oxygen are kept. An atom that is
  aromatic and has a double bond is listed twice.
\<close>

definition sp2_idxs_of :: "nat \<Rightarrow> int list \<Rightarrow> nat list \<Rightarrow> matrix \<Rightarrow> nat list option" where
  "sp2_idxs_of n_atoms atoms aromatic_idxs adjacency_map_full =
     (let sp2_idxs = boolean_mask [0..<n_atoms] (map (list_ex (\<lambda>x. x = 2)) adjacency_map_full);
          sp2_idxs = sp2_idxs @ aromatic_idxs
      in do {
        codes \<leftarrow> gather atoms sp2_idxs;
        Some (boolean_mask sp2_idxs (map (\<lambda>a. a = 0 \<or> (a = 1 \<or> a = 2)) codes))
      })"

type_synonym search_state = "nat list \<times> bool list \<times> nat list"

definition loop_body_inner :: "matrix \<Rightarrow> search_state \<Rightarrow> search_state" where
  "loop_body_inner sp2_adjacency_map st =
     (let queue = fst st; visited = fst (snd st); conjugate_system = snd (snd st);
          idx = last queue;
          queue = butlast queue;
          is_self = map (\<lambda>i. i = idx) [0..<length sp2_adjacency_map];
          is_neighbors = map (\<lambda>x. x > 0) (sp2_adjacency_map ! idx);
          is_unvisited_neighbors = logical_and is_neighbors (map Not visited);
          self_is_unvisited = \<not> visited ! idx;
          conjugate_system = (if self_is_unvisited then conjugate_system @ [idx] else conjugate_system);
          neighbors_unvisited = boolean_mask [0..<length sp2_adjacency_map] is_unvisited_neighbors;
          conjugate_system = conjugate_system @ neighbors_unvisited;
          queue = queue @ neighbors_unvisited;
          visited = map2 (\<lambda>f v. if f then True else v) (logical_or is_unvisited_neighbors is_self) visited
      in (queue, visited, conjugate_system))"

partial_function (option) inner_loop :: "matrix \<Rightarrow> search_state \<Rightarrow> search_state option" where
  "inner_loop sp2_adjacency_map st =
     (if length (fst st) > 0 then inner_loop sp2_adjacency_map (loop_body_inner sp2_adjacency_map st)
      else Some st)"

declare inner_loop.simps [code]

type_synonym systems_state = "int list list \<times> bool list"

definition loop_body_outer :: "matrix \<Rightarrow> nat \<Rightarrow> systems_state \<Rightarrow> systems_state option" where
  "loop_body_outer sp2_adjacency_map n_sp2 st =
     (case boolean_mask [0..<length sp2_adjacency_map] (map Not (snd st)) of
        [] \<Rightarrow> None
      | first # _ \<Rightarrow>
          do {
            found \<leftarrow> inner_loop sp2_adjacency_map ([first], snd st, []);
            let visited = fst (snd found);
            let conjugate_system = snd (snd found);
            let conjugate_system = (if length conjugate_system \<ge> 3 then conjugate_system else []);
            let conjugate_system =
                  map int conjugate_system @ replicate (n_sp2 - length conjugate_system) (-1);
            Some (fst st @ [conjugate_system], visited)
          })"

partial_function (option) outer_loop :: "matrix \<Rightarrow> nat \<Rightarrow> systems_state \<Rightarrow> systems_state option" where
  "outer_loop sp2_adjacency_map n_sp2 st =
     (if list_ex Not (snd st)
      then Option.bind (loop_body_outer sp2_adjacency_map n_sp2 st)
             (\<lambda>st'. outer_loop sp2_adjacency_map n_sp2 st')
      else Some st)"

declare outer_loop.simps [code]

text \<open>The rows of the systems found, without the rows that are all padding.\<close>

definition conjugate_systems_of :: "matrix \<Rightarrow> nat \<Rightarrow> int list list option" where
  "conjugate_systems_of sp2_adjacency_map n_sp2 =
     do {
       st \<leftarrow> outer_loop sp2_adjacency_map n_sp2 ([replicate n_sp2 (-1)], replicate n_sp2 False);
       Some (boolean_mask (fst st) (map (list_ex (\<lambda>x. x > -1)) (fst st)))
     }"

text \<open>\<open>tf.linalg.band_part(m, 0, -1)\<close>: the upper triangle with the diagonal, zero below.\<close>

definition band_part_upper :: "matrix \<Rightarrow> matrix" where
  "band_part_upper m =
     map (\<lambda>i. map (\<lambda>j. if i \<le> j then m ! i ! j else 0) [0..<length (m ! i)]) [0..<length m]"

text \<open>
  One system: the mean is the sum of the upper triangle of the system's sub-matrix of
  the full map divided by the number of its positive entries; the indices to update are
  the pairs of system atoms whose entry in \<open>adjacency_map\<close> is positive, and as many
  updates are appended as positive entries were counted.
\<close>

definition system_mean_bond_order :: "matrix \<Rightarrow> rat" where
  "system_mean_bond_order system_adjacency_map_full =
     (let system_adjacency_map_flatten = concat (band_part_upper system_adjacency_map_full);
          system_total_bond_order = sum_list system_adjacency_map_flatten;
          system_total_bond_count = length (filter (\<lambda>x. x > 0) system_adjacency_map_flatten)
      in system_total_bond_order / of_nat system_total_bond_count)"

definition system_total_bond_count :: "matrix \<Rightarrow> nat" where
  "system_total_bond_count system_adjacency_map_full =
     length (filter (\<lambda>x. x > 0) (concat (band_part_upper system_adjacency_map_full)))"

definition conjugate_body ::
  "matrix \<Rightarrow> nat list \<Rightarrow> matrix \<Rightarrow> ring_state \<Rightarrow> int list \<Rightarrow> ring_state option" where
  "conjugate_body adjacency_map sp2_idxs sp2_adjacency_map st row =
     do {
       let conjugate_system = map nat (filter (\<lambda>x. x > -1) row);
       system_idxs \<leftarrow> gather sp2_idxs conjugate_system;
       system_adjacency_map_full \<leftarrow> gather_square sp2_adjacency_map conjugate_system;
       let system_idxs_2d =
             map (\<lambda>uv. (int (fst uv), int (snd uv))) (List.product system_idxs system_idxs);
       orders \<leftarrow> gather_nd adjacency_map system_idxs_2d;
       let system_idxs_2d = boolean_mask system_idxs_2d (map (\<lambda>x. x > 0) orders);
       Some (fst st @ system_idxs_2d,
             snd st @ replicate (system_total_bond_count system_adjacency_map_full)
                        (system_mean_bond_order system_adjacency_map_full))
     }"

definition conjugate_stage :: "nat \<Rightarrow> int list \<Rightarrow> nat list \<Rightarrow> matrix \<Rightarrow> matrix option" where
  "conjugate_stage n_atoms atoms aromatic_idxs adjacency_map =
     do {
       let adjacency_map_full = full_adjacency_map adjacency_map;
       sp2_idxs \<leftarrow> sp2_idxs_of n_atoms atoms aromatic_idxs adjacency_map_full;
       sp2_adjacency_map \<leftarrow> gather_square adjacency_map_full sp2_idxs;
       conjugate_systems \<leftarrow> conjugate_systems_of sp2_adjacency_map (length sp2_idxs);
       st \<leftarrow> foldl_option (conjugate_body adjacency_map sp2_idxs sp2_adjacency_map)
               ([(-1, -1)], [-1]) conjugate_systems;
       scatter_nd_update adjacency_map (tl (fst st)) (tl (snd st))
     }"

subsection \<open>The decoder\<close>

record streams =
  n_atoms :: nat
  atoms :: "int list"
  topology_chrs :: "char list"
  topology_idxs :: "int list"
  aromatic_idxs :: "nat list"

definition read_smiles :: "string \<Rightarrow> streams option" where
  "read_smiles smiles =
     (let smiles = strip smiles;
          n = count_atoms smiles;
          smiles = normalize smiles;
          smiles_atoms_only = atoms_only smiles;
          smiles_topology_only = topology_only smiles
      in map_option
           (\<lambda>codes. \<lparr> n_atoms = n, atoms = codes,
                       topology_chrs = topology_chrs_of smiles_topology_only,
                       topology_idxs = topology_idxs_of smiles_topology_only,
                       aromatic_idxs = aromatic_idxs_of smiles_atoms_only \<rparr>)
           (atom_codes smiles_atoms_only))"

definition resolve_bond_orders :: "streams \<Rightarrow> matrix option" where
  "resolve_bond_orders s =
     bond_order_stage (initial_adjacency_map (n_atoms s)) (topology_chrs s) (topology_idxs s)"

definition resolve_branches :: "streams \<Rightarrow> matrix option" where
  "resolve_branches s =
     do { m \<leftarrow> resolve_bond_orders s; branch_stage (n_atoms s) m (topology_chrs s) (topology_idxs s) }"

definition resolve_rings :: "streams \<Rightarrow> matrix option" where
  "resolve_rings s =
     do { m \<leftarrow> resolve_branches s; ring_stage m (topology_chrs s) (topology_idxs s) }"

definition resolve_aromatic :: "streams \<Rightarrow> matrix option" where
  "resolve_aromatic s = do { m \<leftarrow> resolve_rings s; aromatic_stage m (aromatic_idxs s) }"

definition resolve_conjugate :: "streams \<Rightarrow> matrix option" where
  "resolve_conjugate s =
     do { m \<leftarrow> resolve_aromatic s; conjugate_stage (n_atoms s) (atoms s) (aromatic_idxs s) m }"

definition smiles_to_organic_topological_molecule :: "string \<Rightarrow> (int list \<times> matrix) option" where
  "smiles_to_organic_topological_molecule smiles =
     do { s \<leftarrow> read_smiles smiles; m \<leftarrow> resolve_conjugate s; Some (atoms s, m) }"

section \<open>Properties of hydrogen completion\<close>

lemma length_boolean_mask:
  "length xs = length fl \<Longrightarrow> length (boolean_mask xs fl) = count_nonzero fl"
  by (induction xs fl rule: list_induct2) (auto simp: boolean_mask_def count_nonzero_def)

lemma boolean_mask_upt_less:
  "p \<in> set (boolean_mask [0..<n] fl) \<Longrightarrow> p < n"
  by (auto simp: boolean_mask_def dest: set_zip_leftD)

lemma foldl_nth_upt:
  "foldl (\<lambda>b i. f b (xs ! i)) b [0..<length xs] = foldl f b xs"
proof (induction xs rule: rev_induct)
  case Nil
  show ?case by simp
next
  case (snoc x xs)
  have "foldl (\<lambda>b i. f b ((xs @ [x]) ! i)) b [0..<length xs]
      = foldl (\<lambda>b i. f b (xs ! i)) b [0..<length xs]"
    by (rule foldl_cong) (simp_all add: nth_append)
  with snoc show ?case by simp
qed

lemma zip_map_same: "zip (map f xs) (map h xs) = map (\<lambda>x. (f x, h x)) xs"
  by (induction xs) simp_all

lemma append_cols_map:
  "append_cols k (map F [0..<n]) (new_line n p)
     = map (\<lambda>i. F i @ replicate k (if i = p then 1 else 0)) [0..<n]"
  by (simp add: append_cols_def new_line_def zip_map_same)

lemma foldl_append_cols:
  "foldl (\<lambda>b p. append_cols k b (new_line n p)) (map F [0..<n]) ps
     = map (\<lambda>i. F i @ map (\<lambda>p. if i = p then 1 else 0) (concat (map (replicate k) ps))) [0..<n]"
proof (induction ps arbitrary: F)
  case Nil
  show ?case by simp
next
  case (Cons p ps)
  show ?case
    by (simp add: append_cols_map Cons.IH [where F = "\<lambda>i. F i @ replicate k (if i = p then 1 else 0)"])
qed

lemma length_has_one: "length (has_one t n) = n"
  by (simp add: has_one_def reduce_any_rows_def)

lemma length_has_two: "length (has_two t n) = n"
  by (simp add: has_two_def reduce_any_rows_def)

lemma length_has_three: "typing_shape t n \<Longrightarrow> length (has_three t) = n"
  by (simp add: has_three_def typing_shape_def logical_and_def)

lemma concat_replicate_1: "concat (map (replicate (Suc 0)) ps) = ps"
  by (induction ps) simp_all

lemma hydrogen_block_eq:
  assumes "typing_shape t n"
  shows "hydrogen_block t n
     = map (\<lambda>i. map (\<lambda>p. if i = p then 1 else 0) (hydrogen_parents t n)) [0..<n]"
proof -
  let ?one = "boolean_mask [0..<n] (has_one t n)"
  let ?two = "boolean_mask [0..<n] (has_two t n)"
  let ?three = "boolean_mask [0..<n] (has_three t)"
  let ?e = "\<lambda>i ps. map (\<lambda>p. if i = p then 1 else (0::rat)) ps"
  have l1: "count_nonzero (has_one t n) = length ?one"
    by (simp add: length_boolean_mask length_has_one)
  have l2: "count_nonzero (has_two t n) = length ?two"
    by (simp add: length_boolean_mask length_has_two)
  have l3: "count_nonzero (has_three t) = length ?three"
    using assms by (simp add: length_boolean_mask length_has_three)
  have b0: "replicate n [-1::rat] = map (\<lambda>i. [-1]) [0..<n]"
    by (simp add: map_replicate_const)
  have f1: "foldl (one_body n ?one) (replicate n [-1]) [0..<length ?one]
      = map (\<lambda>i. [-1] @ ?e i (concat (map (replicate 1) ?one))) [0..<n]"
    unfolding b0 one_body_def
    using foldl_nth_upt [where f = "\<lambda>b p. append_cols 1 b (new_line n p)" and xs = ?one]
    by (simp only: foldl_append_cols)
  have f2: "foldl (two_body n ?two)
        (map (\<lambda>i. [-1] @ ?e i (concat (map (replicate 1) ?one))) [0..<n]) [0..<length ?two]
      = map (\<lambda>i. ([-1] @ ?e i (concat (map (replicate 1) ?one)))
                 @ ?e i (concat (map (replicate 2) ?two))) [0..<n]"
    unfolding two_body_def
    using foldl_nth_upt [where f = "\<lambda>b p. append_cols 2 b (new_line n p)" and xs = ?two]
    by (simp only: foldl_append_cols)
  have f3: "foldl (three_body n ?three)
        (map (\<lambda>i. ([-1] @ ?e i (concat (map (replicate 1) ?one)))
                 @ ?e i (concat (map (replicate 2) ?two))) [0..<n]) [0..<length ?three]
      = map (\<lambda>i. (([-1] @ ?e i (concat (map (replicate 1) ?one)))
                 @ ?e i (concat (map (replicate 2) ?two)))
                 @ ?e i (concat (map (replicate 3) ?three))) [0..<n]"
    unfolding three_body_def
    using foldl_nth_upt [where f = "\<lambda>b p. append_cols 3 b (new_line n p)" and xs = ?three]
    by (simp only: foldl_append_cols)
  show ?thesis
    unfolding hydrogen_block_def Let_def l1 l2 l3 f1 f2 f3
    by (simp add: hydrogen_parents_def concat_replicate_1 o_def)
qed

lemma length_hydrogen_parents:
  "typing_shape t n \<Longrightarrow> length (hydrogen_parents t n)
     = count_nonzero (has_one t n) + 2 * count_nonzero (has_two t n) + 3 * count_nonzero (has_three t)"
  by (simp add: hydrogen_parents_def length_concat length_boolean_mask length_has_one length_has_two
      length_has_three o_def sum_list_triv)

lemma hydrogen_parents_less:
  "p \<in> set (hydrogen_parents t n) \<Longrightarrow> p < n"
  by (auto simp: hydrogen_parents_def dest: boolean_mask_upt_less)

lemma ncols_hydrogen_block:
  assumes "typing_shape t n"
  shows "ncols (hydrogen_block t n) = length (hydrogen_parents t n)"
  unfolding hydrogen_block_eq [OF assms]
proof (cases n)
  case 0
  then show "ncols (map (\<lambda>i. map (\<lambda>p. if i = p then 1 else (0::rat)) (hydrogen_parents t n)) [0..<n])
      = length (hydrogen_parents t n)"
    by (simp add: ncols_def hydrogen_parents_def boolean_mask_def)
next
  case (Suc m)
  then show "ncols (map (\<lambda>i. map (\<lambda>p. if i = p then 1 else (0::rat)) (hydrogen_parents t n)) [0..<n])
      = length (hydrogen_parents t n)"
    by (simp add: ncols_def upt_conv_Cons del: upt_Suc)
qed


lemma add_hydrogen_eq:
  assumes "typing_shape t (length ats)"
  shows "add_hydrogen (ats, bonds) t =
     (ats @ replicate (length (hydrogen_parents t (length ats))) 9,
      map2 (@) bonds (hydrogen_block t (length ats))
        @ replicate (length (hydrogen_parents t (length ats)))
            (replicate (length ats + length (hydrogen_parents t (length ats))) 0))"
  by (simp add: add_hydrogen_def Let_def ncols_hydrogen_block [OF assms])

lemma nth_map2_append:
  "i < length xs \<Longrightarrow> i < length ys \<Longrightarrow> map2 (@) xs ys ! i = xs ! i @ ys ! i"
  by simp

text \<open>
  Claim C9. For every molecule with \<open>N\<close> heavy atoms and an \<open>N\<close> by \<open>N\<close> bond matrix, and
  every classification with one flag per atom, the molecule returned by \<open>add_hydrogen\<close>
  has \<open>N + H\<close> atoms, where \<open>H\<close> is the number of hydrogens added (one per atom with one
  hydrogen, two per atom with two, three per atom with three); the appended atoms carry
  the code 9; the top-left \<open>N\<close> by \<open>N\<close> block is the input matrix; hydrogen column \<open>k\<close> is 1
  in the row of its parent heavy atom and 0 in every other row; the rows of the
  hydrogens are zero.
\<close>

theorem add_hydrogen_block_extended:
  assumes ts: "typing_shape t (length ats)" and sq: "square bonds (length ats)"
  shows "let N = length ats; ps = hydrogen_parents t N; H = length ps;
             ats' = fst (add_hydrogen (ats, bonds) t);
             bonds' = snd (add_hydrogen (ats, bonds) t)
         in H = count_nonzero (has_one t N) + 2 * count_nonzero (has_two t N)
                  + 3 * count_nonzero (has_three t)
          \<and> ats' = ats @ replicate H 9
          \<and> length ats' = N + H
          \<and> square bonds' (N + H)
          \<and> (\<forall>i<N. \<forall>j<N. bonds' ! i ! j = bonds ! i ! j)
          \<and> (\<forall>k<H. ps ! k < N
                \<and> (\<forall>i<N + H. bonds' ! i ! (N + k) = (if i = ps ! k then 1 else 0)))
          \<and> (\<forall>i<N + H. N \<le> i \<longrightarrow> (\<forall>j<N + H. bonds' ! i ! j = 0))"
proof -
  define N where "N = length ats"
  define ps where "ps = hydrogen_parents t N"
  define H where "H = length ps"
  define bonds' where "bonds' = snd (add_hydrogen (ats, bonds) t)"
  define top where "top = map2 (@) bonds (hydrogen_block t N)"
  have lb: "length bonds = N" and rows: "\<And>i. i < N \<Longrightarrow> length (bonds ! i) = N"
    using sq by (simp_all add: square_def N_def list_all_length)
  have blk: "hydrogen_block t N = map (\<lambda>i. map (\<lambda>p. if i = p then 1 else 0) ps) [0..<N]"
    using ts by (simp add: hydrogen_block_eq N_def ps_def)
  have b': "bonds' = top @ replicate H (replicate (N + H) 0)"
    using ts by (simp add: bonds'_def add_hydrogen_eq top_def N_def H_def ps_def)
  have ltop: "length top = N"
    by (simp add: top_def blk lb)
  have top_row: "top ! i = bonds ! i @ map (\<lambda>p. if i = p then 1 else 0) ps" if "i < N" for i
    using that by (simp add: top_def blk lb)
  have row_lo: "bonds' ! i = bonds ! i @ map (\<lambda>p. if i = p then 1 else 0) ps" if "i < N" for i
    using that by (simp add: b' nth_append ltop top_row)
  have row_hi: "bonds' ! i = replicate (N + H) 0" if "N \<le> i" "i < N + H" for i
    using that by (simp add: b' nth_append ltop)
  have c1: "H = count_nonzero (has_one t N) + 2 * count_nonzero (has_two t N)
                  + 3 * count_nonzero (has_three t)"
    using ts by (simp add: H_def ps_def N_def length_hydrogen_parents)
  have c2: "fst (add_hydrogen (ats, bonds) t) = ats @ replicate H 9"
    using ts by (simp add: add_hydrogen_eq H_def ps_def N_def)
  have c4: "square bonds' (N + H)"
    unfolding square_def list_all_length
  proof (intro conjI allI impI)
    show "length bonds' = N + H" by (simp add: b' ltop)
  next
    fix i assume "i < length bonds'"
    then have i: "i < N + H" by (simp add: b' ltop)
    show "length (bonds' ! i) = N + H"
    proof (cases "i < N")
      case True
      then show ?thesis by (simp add: row_lo rows H_def)
    next
      case False
      with i show ?thesis by (simp add: row_hi)
    qed
  qed
  have c5: "\<forall>i<N. \<forall>j<N. bonds' ! i ! j = bonds ! i ! j"
    by (simp add: row_lo nth_append rows)
  have c6: "\<forall>k<H. ps ! k < N
                \<and> (\<forall>i<N + H. bonds' ! i ! (N + k) = (if i = ps ! k then 1 else 0))"
  proof (intro allI impI conjI)
    fix k assume k: "k < H"
    then have "ps ! k \<in> set ps" by (simp add: H_def)
    then show pk: "ps ! k < N" unfolding ps_def by (rule hydrogen_parents_less)
    fix i assume i: "i < N + H"
    show "bonds' ! i ! (N + k) = (if i = ps ! k then 1 else 0)"
    proof (cases "i < N")
      case True
      with k show ?thesis by (simp add: row_lo nth_append rows H_def)
    next
      case False
      with i k pk show ?thesis by (simp add: row_hi)
    qed
  qed
  have c7: "\<forall>i<N + H. N \<le> i \<longrightarrow> (\<forall>j<N + H. bonds' ! i ! j = 0)"
    by (simp add: row_hi)
  show ?thesis
    unfolding Let_def
    using c1 c2 c4 c5 c6 c7
    by (simp add: N_def [symmetric] ps_def [symmetric] H_def [symmetric] bonds'_def [symmetric])
qed

theorem add_hydrogen_block_extended_witness:
  "typing_shape ethane_typing (length [0, 0 :: int])
   \<and> square [[0, 1], [0, 0]] (length [0, 0 :: int])
   \<and> hydrogen_parents ethane_typing (length [0, 0 :: int]) = [0, 0, 0, 1, 1, 1]
   \<and> fst (add_hydrogen ([0, 0], [[0, 1], [0, 0]]) ethane_typing) = [0, 0, 9, 9, 9, 9, 9, 9]
   \<and> snd (add_hydrogen ([0, 0], [[0, 1], [0, 0]]) ethane_typing) ! 0 ! 1 = 1
   \<and> snd (add_hydrogen ([0, 0], [[0, 1], [0, 0]]) ethane_typing) ! 1 ! 5 = 1
   \<and> snd (add_hydrogen ([0, 0], [[0, 1], [0, 0]]) ethane_typing) ! 0 ! 5 = 0
   \<and> snd (add_hydrogen ([0, 0], [[0, 1], [0, 0]]) ethane_typing) ! 7 ! 0 = 0"
proof -
  let ?r = "add_hydrogen ([0, 0], [[0, 1], [0, 0]]) ethane_typing"
  have ts: "typing_shape ethane_typing (length [0, 0 :: int])"
    by (simp add: typing_shape_def ethane_typing_def)
  have sq: "square [[0, 1], [0, 0]] (length [0, 0 :: int])"
    by (simp add: square_def)
  have ps: "hydrogen_parents ethane_typing (length [0, 0 :: int]) = [0, 0, 0, 1, 1, 1]"
    by code_simp
  note th = add_hydrogen_block_extended [OF ts sq, unfolded Let_def ps]
  have a: "fst ?r = [0, 0, 9, 9, 9, 9, 9, 9]"
    using th by (simp add: numeral_eq_Suc)
  have blk: "\<forall>i<2. \<forall>j<2. snd ?r ! i ! j = [[0, 1], [0, 0]] ! i ! j"
    using th by simp
  have col: "\<forall>k<6. \<forall>i<8. snd ?r ! i ! (2 + k) = (if i = [0, 0, 0, 1, 1, 1] ! k then 1 else 0)"
    using th by simp
  have bot: "\<forall>i<8. 2 \<le> i \<longrightarrow> (\<forall>j<8. snd ?r ! i ! j = 0)"
    using th by simp
  have b: "snd ?r ! 0 ! 1 = 1"
    using blk [rule_format, of 0 1] by simp
  have c: "snd ?r ! 1 ! 5 = 1"
    using col [rule_format, of 3 1] by simp
  have d: "snd ?r ! 0 ! 5 = 0"
    using col [rule_format, of 3 0] by simp
  have e: "snd ?r ! 7 ! 0 = 0"
    using bot [rule_format, of 7 0] by simp
  show ?thesis
    using ts sq ps a b c d e by blast
qed

text \<open>
  Claim C1, as stated, fails: for the single sp3 carbon with no heavy neighbour the
  result has one atom, not five, and no hydrogen column.
\<close>

theorem add_hydrogen_methane_counterexample:
  "add_hydrogen ([0], [[0]]) methane_typing = ([0], [[0]])
   \<and> length (fst (add_hydrogen ([0], [[0]]) methane_typing)) \<noteq> 1 + 4"
  by (simp add: add_hydrogen_def hydrogen_block_def methane_typing_def has_one_def has_two_def
      has_three_def reduce_any_rows_def logical_and_def logical_or_def boolean_mask_def
      count_nonzero_def ncols_def)

text \<open>
  Claim C1, amended. Every rule of \<open>add_hydrogen\<close> for carbon asks for one, two or three
  heavy neighbours. For a molecule of a single atom classified as carbon, not oxygen or
  sulfur, and connected to neither one, two nor three heavy atoms, no rule applies:
  \<open>add_hydrogen\<close> appends no hydrogen and returns the atom list and the bond matrix
  unchanged.
\<close>

theorem add_hydrogen_isolated_carbon:
  assumes "typing_shape t 1"
    and "is_carbon t = [True]" and "is_sp3 t = [True]"
    and "is_oxygen t = [False]" and "is_sulfur t = [False]"
    and "is_connected_to_1_heavy t = [False]" and "is_connected_to_2_heavy t = [False]"
    and "is_connected_to_3_heavy t = [False]"
  shows "add_hydrogen ([a], [[b]]) t = ([a], [[b]])"
proof -
  have ts: "typing_shape t (length [a])"
    using assms(1) by simp
  have "hydrogen_parents t 1 = []"
    using assms
    by (cases "is_nitrogen t"; cases "is_phosphorus t"; cases "is_sp1 t"; cases "is_sp2 t")
       (auto simp: hydrogen_parents_def has_one_def has_two_def has_three_def reduce_any_rows_def
          logical_and_def logical_or_def boolean_mask_def typing_shape_def)
  then show ?thesis
    using add_hydrogen_eq [OF ts, of "[[b]]"] hydrogen_block_eq [OF assms(1)] by simp
qed

theorem add_hydrogen_isolated_carbon_witness:
  "typing_shape methane_typing 1
   \<and> is_carbon methane_typing = [True] \<and> is_sp3 methane_typing = [True]
   \<and> is_oxygen methane_typing = [False] \<and> is_sulfur methane_typing = [False]
   \<and> is_connected_to_1_heavy methane_typing = [False]
   \<and> is_connected_to_2_heavy methane_typing = [False]
   \<and> is_connected_to_3_heavy methane_typing = [False]
   \<and> add_hydrogen ([0], [[0]]) methane_typing = ([0], [[0]])"
proof -
  have h: "typing_shape methane_typing 1"
    "is_carbon methane_typing = [True]" "is_sp3 methane_typing = [True]"
    "is_oxygen methane_typing = [False]" "is_sulfur methane_typing = [False]"
    "is_connected_to_1_heavy methane_typing = [False]"
    "is_connected_to_2_heavy methane_typing = [False]"
    "is_connected_to_3_heavy methane_typing = [False]"
    by (simp_all add: methane_typing_def typing_shape_def)
  show ?thesis
    using h add_hydrogen_isolated_carbon [OF h, of 0 0] by simp
qed

section \<open>Properties of the scatter updates\<close>

lemma length_update_entry [simp]: "length (update_entry m u) = length m"
  by (simp add: update_entry_def)

lemma length_row_update_entry [simp]: "length (update_entry m u ! i) = length (m ! i)"
proof (cases "i < length m")
  case True
  then show ?thesis
    by (cases "nat (fst (fst u)) = i") (simp_all add: update_entry_def)
next
  case False
  then show ?thesis
    by (cases "nat (fst (fst u)) = i") (simp_all add: update_entry_def list_update_beyond)
qed

lemma valid_index_update_entry [simp]: "valid_index (update_entry m u) ij = valid_index m ij"
  by (simp add: valid_index_def)

lemma valid_index_foldl [simp]: "valid_index (foldl update_entry m us) ij = valid_index m ij"
  by (induction us arbitrary: m) simp_all

lemma length_foldl_update_entry [simp]: "length (foldl update_entry m us) = length m"
  by (induction us arbitrary: m) simp_all

lemma length_row_foldl_update_entry [simp]:
  "length (foldl update_entry m us ! i) = length (m ! i)"
  by (induction us arbitrary: m) simp_all

lemma entry_update_entry:
  assumes "valid_index m ij" and "valid_index m (fst u)"
  shows "entry (update_entry m u) ij = (if ij = fst u then snd u else entry m ij)"
proof -
  obtain i j where ij: "ij = (i, j)" by (cases ij)
  obtain k l v where u: "u = ((k, l), v)" by (cases u) auto
  from assms show ?thesis
    unfolding ij u valid_index_def entry_def update_entry_def
    by (auto simp: nth_list_update)
qed

lemma entry_foldl_update_entry:
  assumes "valid_index m ij" and "list_all (valid_index m) (map fst us)"
  shows "entry (foldl update_entry m us) ij
     = (case map_of (rev us) ij of None \<Rightarrow> entry m ij | Some v \<Rightarrow> v)"
  using assms(2)
proof (induction us rule: rev_induct)
  case Nil
  show ?case by simp
next
  case (snoc u us)
  then have v: "valid_index m (fst u)" and IH: "entry (foldl update_entry m us) ij
     = (case map_of (rev us) ij of None \<Rightarrow> entry m ij | Some v \<Rightarrow> v)"
    by simp_all
  show ?case
    using assms(1) v IH
    by (cases u) (simp add: entry_update_entry)
qed

lemma scatter_nd_update_entry:
  assumes "scatter_nd_update m idxs updates = Some m'" and "valid_index m ij"
  shows "entry m' ij
     = (case map_of (rev (zip idxs updates)) ij of None \<Rightarrow> entry m ij | Some v \<Rightarrow> v)"
proof -
  from assms(1) have len: "length idxs = length updates"
    and val: "list_all (valid_index m) idxs"
    and m': "m' = foldl update_entry m (zip idxs updates)"
    by (auto simp: scatter_nd_update_def split: if_splits)
  have "list_all (valid_index m) (map fst (zip idxs updates))"
    using val len by (simp add: list_all_iff)
  then show ?thesis
    unfolding m' using assms(2) by (rule entry_foldl_update_entry [rotated])
qed

lemma scatter_nd_update_valid:
  "scatter_nd_update m idxs updates = Some m' \<Longrightarrow> valid_index m' ij = valid_index m ij"
  by (auto simp: scatter_nd_update_def split: if_splits)

lemma scatter_nd_update_valid_idxs:
  "scatter_nd_update m idxs updates = Some m' \<Longrightarrow> ij \<in> set idxs \<Longrightarrow> valid_index m ij"
  by (auto simp: scatter_nd_update_def list_all_iff split: if_splits)

lemma map_of_rev_zip_const:
  "map_of (rev (zip ks (map (\<lambda>k. c) ks))) k = (if k \<in> set ks then Some c else None)"
proof (induction ks rule: rev_induct)
  case Nil
  show ?case by simp
next
  case (snoc x xs)
  then show ?case by (auto simp: zip_append1)
qed

lemma scatter_nd_update_const:
  assumes "scatter_nd_update m idxs (map (\<lambda>k. c) idxs) = Some m'" and "valid_index m ij"
  shows "entry m' ij = (if ij \<in> set idxs then c else entry m ij)"
  using scatter_nd_update_entry [OF assms] by (simp add: map_of_rev_zip_const)

lemma set_where_true: "set (where_true fl) = {i. i < length fl \<and> fl ! i}"
proof -
  have "set (map fst (filter snd (zip [0..<length fl] fl))) = {i. i < length fl \<and> fl ! i}"
  proof (intro set_eqI iffI)
    fix i assume "i \<in> set (map fst (filter snd (zip [0..<length fl] fl)))"
    then obtain b where "(i, b) \<in> set (zip [0..<length fl] fl)" and b
      by auto
    then show "i \<in> {i. i < length fl \<and> fl ! i}"
      by (auto simp: set_zip)
  next
    fix i assume "i \<in> {i. i < length fl \<and> fl ! i}"
    then have "(i, True) \<in> set (zip [0..<length fl] fl)"
      by (auto simp: set_zip intro!: exI [of _ i])
    then have "(i, True) \<in> set (filter snd (zip [0..<length fl] fl))"
      by simp
    then show "i \<in> set (map fst (filter snd (zip [0..<length fl] fl)))"
      by force
  qed
  then show ?thesis by (simp add: where_true_def boolean_mask_def)
qed

lemma set_anchors_of:
  "set (anchors_of c chrs idxs) = {idxs ! p | p. p < length chrs \<and> chrs ! p = c}"
  by (auto simp: anchors_of_def set_where_true)


section \<open>Properties of the bond-order stage\<close>

lemma bond_order_stage_entry:
  assumes st: "bond_order_stage A chrs idxs = Some A'" and v: "valid_index A ij"
  shows "entry A' ij =
     (if ij \<in> (\<lambda>a. (a, a + 1)) ` set (anchors_of (CHR ''#'') chrs idxs) then 3
      else if ij \<in> (\<lambda>a. (a, a + 1)) ` set (anchors_of (CHR ''='') chrs idxs) then 2
      else entry A ij)"
proof -
  let ?d = "anchors_of (CHR ''='') chrs idxs" and ?t = "anchors_of (CHR ''#'') chrs idxs"
  from st obtain A1 where
    s1: "scatter_nd_update A (map (\<lambda>a. (a, a + 1)) ?d) (map (\<lambda>a. 2) ?d) = Some A1" and
    s2: "scatter_nd_update A1 (map (\<lambda>a. (a, a + 1)) ?t) (map (\<lambda>a. 3) ?t) = Some A'"
    by (auto simp: bond_order_stage_def Let_def split: bind_splits)
  have m2: "map (\<lambda>a. 2::rat) ?d = map (\<lambda>k. 2) (map (\<lambda>a. (a, a + 1)) ?d)"
    and m3: "map (\<lambda>a. 3::rat) ?t = map (\<lambda>k. 3) (map (\<lambda>a. (a, a + 1)) ?t)"
    by simp_all
  have v1: "valid_index A1 ij"
    using v scatter_nd_update_valid [OF s1] by simp
  have e1: "entry A1 ij = (if ij \<in> set (map (\<lambda>a. (a, a + 1)) ?d) then 2 else entry A ij)"
    using s1 v unfolding m2 by (rule scatter_nd_update_const)
  have e2: "entry A' ij = (if ij \<in> set (map (\<lambda>a. (a, a + 1)) ?t) then 3 else entry A1 ij)"
    using s2 v1 unfolding m3 by (rule scatter_nd_update_const)
  show ?thesis
    unfolding e2 e1 by simp
qed

lemma bond_order_stage_valid:
  assumes st: "bond_order_stage A chrs idxs = Some A'"
    and a: "a \<in> set (anchors_of (CHR ''='') chrs idxs) \<union> set (anchors_of (CHR ''#'') chrs idxs)"
  shows "valid_index A (a, a + 1)"
proof -
  let ?d = "anchors_of (CHR ''='') chrs idxs" and ?t = "anchors_of (CHR ''#'') chrs idxs"
  from st obtain A1 where
    s1: "scatter_nd_update A (map (\<lambda>a. (a, a + 1)) ?d) (map (\<lambda>a. 2) ?d) = Some A1" and
    s2: "scatter_nd_update A1 (map (\<lambda>a. (a, a + 1)) ?t) (map (\<lambda>a. 3) ?t) = Some A'"
    by (auto simp: bond_order_stage_def Let_def split: bind_splits)
  from a show ?thesis
  proof
    assume "a \<in> set ?d"
    then show ?thesis using scatter_nd_update_valid_idxs [OF s1, of "(a, a + 1)"] by simp
  next
    assume "a \<in> set ?t"
    then have "valid_index A1 (a, a + 1)"
      using scatter_nd_update_valid_idxs [OF s2, of "(a, a + 1)"] by simp
    then show ?thesis using scatter_nd_update_valid [OF s1] by simp
  qed
qed

text \<open>
  Claim C8. For every double-bond marker at position \<open>p\<close> of the topology marks, with
  anchor \<open>a = topology_idxs[p]\<close>, the bond-order stage sets the entry \<open>(a, a + 1)\<close> to 2,
  and for every triple-bond marker to 3 (the triple-bond update runs second, so it wins
  should a triple-bond marker have the same anchor). The decoder returns order 2 at
  \<open>(0, 1)\<close> for \<open>C=C\<close> and order 3 for \<open>C#C\<close>.
\<close>

theorem bond_order_markers:
  "(bond_order_stage A chrs idxs = Some A' \<and> p < length chrs \<and> chrs ! p = CHR ''='' \<longrightarrow>
      entry A' (idxs ! p, idxs ! p + 1)
        = (if idxs ! p \<in> set (anchors_of (CHR ''#'') chrs idxs) then 3 else 2))
   \<and> (bond_order_stage A chrs idxs = Some A' \<and> p < length chrs \<and> chrs ! p = CHR ''#'' \<longrightarrow>
      entry A' (idxs ! p, idxs ! p + 1) = 3)
   \<and> smiles_to_organic_topological_molecule ''C=C'' = Some ([0, 0], [[0, 2], [0, 0]])
   \<and> smiles_to_organic_topological_molecule ''C#C'' = Some ([0, 0], [[0, 3], [0, 0]])"
proof (intro conjI impI)
  assume h: "bond_order_stage A chrs idxs = Some A' \<and> p < length chrs \<and> chrs ! p = CHR ''=''"
  then have a: "idxs ! p \<in> set (anchors_of (CHR ''='') chrs idxs)"
    by (auto simp: set_anchors_of)
  then have v: "valid_index A (idxs ! p, idxs ! p + 1)"
    using h bond_order_stage_valid by blast
  have inj: "\<And>S. (idxs ! p, idxs ! p + 1) \<in> (\<lambda>a. (a, a + 1)) ` S \<longleftrightarrow> idxs ! p \<in> S"
    by auto
  show "entry A' (idxs ! p, idxs ! p + 1)
        = (if idxs ! p \<in> set (anchors_of (CHR ''#'') chrs idxs) then 3 else 2)"
    using bond_order_stage_entry [OF conjunct1 [OF h] v] a by (simp add: inj)
next
  assume h: "bond_order_stage A chrs idxs = Some A' \<and> p < length chrs \<and> chrs ! p = CHR ''#''"
  then have a: "idxs ! p \<in> set (anchors_of (CHR ''#'') chrs idxs)"
    by (auto simp: set_anchors_of)
  then have v: "valid_index A (idxs ! p, idxs ! p + 1)"
    using h bond_order_stage_valid by blast
  have inj: "\<And>S. (idxs ! p, idxs ! p + 1) \<in> (\<lambda>a. (a, a + 1)) ` S \<longleftrightarrow> idxs ! p \<in> S"
    by auto
  show "entry A' (idxs ! p, idxs ! p + 1) = 3"
    using bond_order_stage_entry [OF conjunct1 [OF h] v] a by (simp add: inj)
next
  show "smiles_to_organic_topological_molecule ''C=C'' = Some ([0, 0], [[0, 2], [0, 0]])"
    by code_simp
next
  show "smiles_to_organic_topological_molecule ''C#C'' = Some ([0, 0], [[0, 3], [0, 0]])"
    by code_simp
qed

text \<open>The marks of \<open>C=CC#C\<close>: a double bond with anchor 0 and a triple bond with anchor 2.\<close>

theorem bond_order_markers_witness:
  "map_option (\<lambda>s. (topology_chrs s, topology_idxs s)) (read_smiles ''C=CC#C'') = Some (''=#'', [0, 2])
   \<and> bond_order_stage (initial_adjacency_map 4) ''=#'' [0, 2]
       = Some [[0, 2, 0, 0], [0, 0, 1, 0], [0, 0, 0, 3], [0, 0, 0, 0]]
   \<and> entry [[0, 2, 0, 0], [0, 0, 1, 0], [0, 0, 0, 3], [0, 0, 0, 0]] (0, 1) = 2
   \<and> entry [[0, 2, 0, 0], [0, 0, 1, 0], [0, 0, 0, 3], [0, 0, 0, 0]] (2, 3) = 3"
proof -
  let ?A' = "[[0, 2, 0, 0], [0, 0, 1, 0], [0, 0, 0, 3], [0, 0, 0, 0 :: rat]]"
  have r: "map_option (\<lambda>s. (topology_chrs s, topology_idxs s)) (read_smiles ''C=CC#C'')
      = Some (''=#'', [0, 2])"
    by code_simp
  have st: "bond_order_stage (initial_adjacency_map 4) ''=#'' [0, 2] = Some ?A'"
    by code_simp
  have nt: "(0::int) \<notin> set (anchors_of (CHR ''#'') ''=#'' [0, 2])"
    by code_simp
  have d: "entry ?A' ([0, 2] ! 0, [0, 2] ! 0 + 1) = 2"
    using bond_order_markers [of "initial_adjacency_map 4" "''=#''" "[0, 2]" ?A' 0] st nt
    by simp
  have t: "entry ?A' ([0, 2] ! 1, [0, 2] ! 1 + 1) = 3"
    using bond_order_markers [of "initial_adjacency_map 4" "''=#''" "[0, 2]" ?A' 1] st
    by simp
  show ?thesis
    using r st d t by simp
qed

section \<open>Properties of the ring stage\<close>

lemma ring_body_eq:
  "ring_body chrs idxs d st
     = (fst st @ digit_pairs chrs idxs d, snd st @ replicate (length (digit_pairs chrs idxs d)) 1)"
  by (simp add: ring_body_def digit_pairs_def Let_def)

lemma foldl_ring_body:
  "foldl (\<lambda>st d. ring_body chrs idxs d st) st ds
     = (fst st @ concat (map (digit_pairs chrs idxs) ds),
        snd st @ replicate (length (concat (map (digit_pairs chrs idxs) ds))) 1)"
  by (induction ds arbitrary: st) (simp_all add: ring_body_eq replicate_add)

lemma ring_loop_eq:
  "snd (ring_loop chrs idxs idx st)
     = foldl (\<lambda>st d. ring_body chrs idxs d st) st
         (takeWhile (\<lambda>d. connection_chrs ! d \<in> set chrs) [idx..<max_iter])"
proof (induction chrs idxs idx st rule: ring_loop.induct)
  case (1 chrs idxs idx st)
  show ?case
  proof (cases "idx < max_iter \<and> connection_chrs ! idx \<in> set chrs \<and> length chrs > 0")
    case True
    then have "[idx..<max_iter] = idx # [idx + 1..<max_iter]"
      by (simp add: upt_conv_Cons)
    with True "1.IH" show ?thesis
      by (subst ring_loop.simps) simp
  next
    case False
    then have "takeWhile (\<lambda>d. connection_chrs ! d \<in> set chrs) [idx..<max_iter] = []"
      by (cases "idx < max_iter") (auto simp: upt_conv_Cons)
    with False show ?thesis
      by (subst ring_loop.simps) auto
  qed
qed

lemma ring_updates_eq:
  "ring_updates chrs idxs =
     (concat (map (digit_pairs chrs idxs)
        (takeWhile (\<lambda>d. connection_chrs ! d \<in> set chrs) [0..<max_iter])),
      replicate (length (concat (map (digit_pairs chrs idxs)
        (takeWhile (\<lambda>d. connection_chrs ! d \<in> set chrs) [0..<max_iter])))) 1)"
proof (cases "length chrs > 0")
  case True
  then show ?thesis
    by (simp add: ring_updates_def ring_loop_eq foldl_ring_body)
next
  case False
  then have "takeWhile (\<lambda>d. connection_chrs ! d \<in> set chrs) [0..<max_iter] = []"
    by (simp add: max_iter_def upt_conv_Cons)
  with False show ?thesis
    by (simp add: ring_updates_def)
qed

lemma ring_stage_entry:
  assumes "ring_stage A chrs idxs = Some A'" and "valid_index A ij"
  shows "entry A' ij = (if ij \<in> set (fst (ring_updates chrs idxs)) then 1 else entry A ij)"
proof -
  let ?R = "fst (ring_updates chrs idxs)"
  have "snd (ring_updates chrs idxs) = map (\<lambda>k. 1) ?R"
    by (simp add: ring_updates_eq map_replicate_const)
  with assms(1) have "scatter_nd_update A ?R (map (\<lambda>k. 1) ?R) = Some A'"
    by (simp add: ring_stage_def)
  then show ?thesis
    using assms(2) by (rule scatter_nd_update_const)
qed

lemma ring_stage_valid:
  "ring_stage A chrs idxs = Some A' \<Longrightarrow> ij \<in> set (fst (ring_updates chrs idxs)) \<Longrightarrow> valid_index A ij"
  unfolding ring_stage_def by (rule scatter_nd_update_valid_idxs)

lemma takeWhile_upt_mem:
  assumes "list_all Q [0..<Suc d]" and "d < n"
  shows "d \<in> set (takeWhile Q [0..<n])"
proof -
  have "[0..<n] = [0..<Suc d] @ [Suc d..<n]"
    using assms(2) by (metis Suc_leI le0 upt_add_eq_append le_add_diff_inverse)
  moreover have "\<forall>x\<in>set [0..<Suc d]. Q x"
    using assms(1) by (simp add: list_all_iff)
  ultimately have "takeWhile Q [0..<n] = [0..<Suc d] @ takeWhile Q [Suc d..<n]"
    by (simp only: takeWhile_append2)
  then show ?thesis by simp
qed

lemma takeWhile_stop: "\<not> Q d \<Longrightarrow> takeWhile Q (xs @ d # ys) = takeWhile Q xs"
  by (induction xs) simp_all

lemma takeWhile_upt_stop:
  assumes "\<not> Q d" and "d < n"
  shows "takeWhile Q [0..<n] = takeWhile Q [0..<d]"
proof -
  have "[0..<n] = [0..<d] @ d # [Suc d..<n]"
    using assms(2) by (metis le0 less_imp_le_nat upt_add_eq_append le_add_diff_inverse upt_conv_Cons)
  then have "takeWhile Q [0..<n] = takeWhile Q ([0..<d] @ d # [Suc d..<n])"
    by simp
  also have "\<dots> = takeWhile Q [0..<d]"
    using assms(1) by (rule takeWhile_stop)
  finally show ?thesis .
qed

lemma ring_pairs_two: "ring_pairs [a, b] = [(a, b)]"
  by (simp add: ring_pairs_def upt_rec)

text \<open>
  Claim C2, as stated, fails: in \<open>C2CCCCC2\<close> the digit 2 occurs behind the atoms 0 and
  5, the digit 1 does not occur, and after the ring stage the bond \<open>(0, 5)\<close> is still 0,
  whereas \<open>C1CCCCC1\<close> gets the bond.
\<close>

theorem ring_digit_without_smaller_counterexample:
  "map_option (\<lambda>s. (topology_chrs s, topology_idxs s)) (read_smiles ''C2CCCCC2'') = Some (''22'', [0, 5])
   \<and> map_option (\<lambda>m. entry m (0, 5)) (Option.bind (read_smiles ''C2CCCCC2'') resolve_rings) = Some 0
   \<and> map_option (\<lambda>m. entry m (0, 5)) (Option.bind (read_smiles ''C1CCCCC1'') resolve_rings) = Some 1"
  by code_simp

text \<open>
  Claim C2, amended. The ring stage tries the digits 1, 2, ..., 5 in this order and ends
  the scan at the first digit that does not occur among the topology marks. The bonds it
  writes are exactly the pairs of the digits before that one, each with order 1. So a
  digit that does not occur adds nothing, and no digit after it is resolved even when it
  occurs: a digit is resolved only when all smaller digits occur too. When the digit 1
  does not occur, the stage leaves the bond matrix as it is.
\<close>

theorem ring_scan_stops_at_first_absent_digit:
  "fst (ring_updates chrs idxs)
     = concat (map (digit_pairs chrs idxs)
         (takeWhile (\<lambda>d. connection_chrs ! d \<in> set chrs) [0..<max_iter]))
   \<and> snd (ring_updates chrs idxs) = replicate (length (fst (ring_updates chrs idxs))) 1
   \<and> (d < max_iter \<and> connection_chrs ! d \<notin> set chrs \<longrightarrow>
        fst (ring_updates chrs idxs)
          = concat (map (digit_pairs chrs idxs)
              (takeWhile (\<lambda>d. connection_chrs ! d \<in> set chrs) [0..<d])))
   \<and> (connection_chrs ! 0 \<notin> set chrs \<longrightarrow> ring_stage A chrs idxs = Some A)"
proof (intro conjI impI)
  show "fst (ring_updates chrs idxs)
     = concat (map (digit_pairs chrs idxs)
         (takeWhile (\<lambda>d. connection_chrs ! d \<in> set chrs) [0..<max_iter]))"
    by (simp add: ring_updates_eq)
  show "snd (ring_updates chrs idxs) = replicate (length (fst (ring_updates chrs idxs))) 1"
    by (simp add: ring_updates_eq)
next
  assume "d < max_iter \<and> connection_chrs ! d \<notin> set chrs"
  then have "takeWhile (\<lambda>d. connection_chrs ! d \<in> set chrs) [0..<max_iter]
      = takeWhile (\<lambda>d. connection_chrs ! d \<in> set chrs) [0..<d]"
    using takeWhile_upt_stop [of "\<lambda>d. connection_chrs ! d \<in> set chrs" d max_iter] by simp
  then show "fst (ring_updates chrs idxs)
          = concat (map (digit_pairs chrs idxs)
              (takeWhile (\<lambda>d. connection_chrs ! d \<in> set chrs) [0..<d]))"
    by (simp add: ring_updates_eq)
next
  assume "connection_chrs ! 0 \<notin> set chrs"
  then have "takeWhile (\<lambda>d. connection_chrs ! d \<in> set chrs) [0..<max_iter] = []"
    by (simp add: max_iter_def upt_conv_Cons)
  then show "ring_stage A chrs idxs = Some A"
    by (simp add: ring_stage_def ring_updates_eq scatter_nd_update_def)
qed

theorem ring_scan_stops_at_first_absent_digit_witness:
  "(0::nat) < max_iter \<and> connection_chrs ! 0 \<notin> set ''22''
   \<and> digit_pairs ''22'' [0, 5] 1 = [(0, 5)]
   \<and> fst (ring_updates ''22'' [0, 5]) = []
   \<and> ring_stage (initial_adjacency_map 6) ''22'' [0, 5] = Some (initial_adjacency_map 6)"
proof -
  have h: "(0::nat) < max_iter \<and> connection_chrs ! 0 \<notin> set ''22''"
    by code_simp
  have p: "digit_pairs ''22'' [0, 5] 1 = [(0, 5)]"
    by code_simp
  note th = ring_scan_stops_at_first_absent_digit
    [of "''22''" "[0, 5]" 0 "initial_adjacency_map 6"]
  from th h have "fst (ring_updates ''22'' [0, 5])
      = concat (map (digit_pairs ''22'' [0, 5])
          (takeWhile (\<lambda>d. connection_chrs ! d \<in> set ''22'') [0..<0]))"
    by blast
  then have u: "fst (ring_updates ''22'' [0, 5]) = []"
    by simp
  have s: "ring_stage (initial_adjacency_map 6) ''22'' [0, 5] = Some (initial_adjacency_map 6)"
    using th h by blast
  show ?thesis
    using h p u s by simp
qed

text \<open>
  Claim C3, as stated, fails for the digit 6: in the chain of six three-membered rings
  below all of 1 to 5 occur and are resolved (the fifth ring closes \<open>(12, 14)\<close>), but the
  bond \<open>(15, 17)\<close> of the digit 6 is not created.
\<close>

theorem ring_digit_six_counterexample:
  "map_option (\<lambda>m. (entry m (12, 14), entry m (15, 17)))
     (Option.bind (read_smiles ''C1CC1C2CC2C3CC3C4CC4C5CC5C6CC6'') resolve_rings) = Some (1, 0)"
  by code_simp

text \<open>
  Claim C3, amended. The ring-closure digits one through five are resolved, in this
  order and as long as no smaller digit is missing: when the digits 1 up to \<open>d \<le> 5\<close> all
  occur and the digit \<open>d\<close> occurs exactly twice, behind the atoms \<open>a \<le> b\<close>, the ring stage
  sets the bond \<open>(a, b)\<close> to 1. When all of 1 to 5 occur, the bonds written are exactly
  the pairs of these five digits: the digit 6, like 7 to 9, is never resolved. In
  \<open>C1CCCCC1\<close> the bond \<open>(0, 5)\<close> has order 1 after the ring stage.
\<close>

theorem ring_digits_one_to_five:
  "(ring_stage A chrs idxs = Some A' \<and> d < max_iter
      \<and> list_all (\<lambda>e. connection_chrs ! e \<in> set chrs) [0..<Suc d]
      \<and> sort (anchors_of (connection_chrs ! d) chrs idxs) = [a, b] \<longrightarrow> entry A' (a, b) = 1)
   \<and> (list_all (\<lambda>e. connection_chrs ! e \<in> set chrs) [0..<max_iter] \<longrightarrow>
        fst (ring_updates chrs idxs) = concat (map (digit_pairs chrs idxs) [0..<max_iter]))
   \<and> map_option (\<lambda>m. entry m (0, 5)) (Option.bind (read_smiles ''C1CCCCC1'') resolve_rings) = Some 1"
proof (intro conjI impI)
  assume h: "ring_stage A chrs idxs = Some A' \<and> d < max_iter
      \<and> list_all (\<lambda>e. connection_chrs ! e \<in> set chrs) [0..<Suc d]
      \<and> sort (anchors_of (connection_chrs ! d) chrs idxs) = [a, b]"
  then have "d \<in> set (takeWhile (\<lambda>d. connection_chrs ! d \<in> set chrs) [0..<max_iter])"
    using takeWhile_upt_mem by blast
  moreover have "digit_pairs chrs idxs d = [(a, b)]"
    using h by (simp add: digit_pairs_def ring_pairs_two)
  ultimately have m: "(a, b) \<in> set (fst (ring_updates chrs idxs))"
    by (force simp: ring_updates_eq)
  then have "valid_index A (a, b)"
    using h ring_stage_valid by blast
  then show "entry A' (a, b) = 1"
    using ring_stage_entry [of A chrs idxs A' "(a, b)"] h m by simp
next
  assume "list_all (\<lambda>e. connection_chrs ! e \<in> set chrs) [0..<max_iter]"
  then have "takeWhile (\<lambda>d. connection_chrs ! d \<in> set chrs) [0..<max_iter] = [0..<max_iter]"
    by (simp add: list_all_iff)
  then show "fst (ring_updates chrs idxs) = concat (map (digit_pairs chrs idxs) [0..<max_iter])"
    by (simp only: ring_updates_eq fst_conv)
next
  show "map_option (\<lambda>m. entry m (0, 5)) (Option.bind (read_smiles ''C1CCCCC1'') resolve_rings) = Some 1"
    by code_simp
qed

theorem ring_digits_one_to_five_witness:
  "ring_stage (initial_adjacency_map 6) ''11'' [0, 5]
       = Some [[0, 1, 0, 0, 0, 1], [0, 0, 1, 0, 0, 0], [0, 0, 0, 1, 0, 0], [0, 0, 0, 0, 1, 0],
               [0, 0, 0, 0, 0, 1], [0, 0, 0, 0, 0, 0]]
   \<and> (0::nat) < max_iter
   \<and> list_all (\<lambda>e. connection_chrs ! e \<in> set ''11'') [0..<Suc 0]
   \<and> sort (anchors_of (connection_chrs ! 0) ''11'' [0, 5]) = [0, 5]
   \<and> entry [[0, 1, 0, 0, 0, 1], [0, 0, 1, 0, 0, 0], [0, 0, 0, 1, 0, 0], [0, 0, 0, 0, 1, 0],
              [0, 0, 0, 0, 0, 1], [0, 0, 0, 0, 0, 0]] (0, 5) = 1
   \<and> list_all (\<lambda>e. connection_chrs ! e \<in> set ''1122334455'') [0..<max_iter]
   \<and> fst (ring_updates ''1122334455'' [0, 2, 3, 5, 6, 8, 9, 11, 12, 14])
       = [(0, 2), (3, 5), (6, 8), (9, 11), (12, 14)]"
proof -
  let ?A' = "[[0, 1, 0, 0, 0, 1], [0, 0, 1, 0, 0, 0], [0, 0, 0, 1, 0, 0], [0, 0, 0, 0, 1, 0],
               [0, 0, 0, 0, 0, 1], [0, 0, 0, 0, 0, 0 :: rat]]"
  have s: "ring_stage (initial_adjacency_map 6) ''11'' [0, 5] = Some ?A'"
    by code_simp
  have h: "(0::nat) < max_iter" "list_all (\<lambda>e. connection_chrs ! e \<in> set ''11'') [0..<Suc 0]"
    "sort (anchors_of (connection_chrs ! 0) ''11'' [0, 5]) = [0, 5]"
    by code_simp+
  have e: "entry ?A' (0, 5) = 1"
    using ring_digits_one_to_five [of "initial_adjacency_map 6" "''11''" "[0, 5]" ?A' 0 0 5] s h
    by simp
  have a: "list_all (\<lambda>e. connection_chrs ! e \<in> set ''1122334455'') [0..<max_iter]"
    by code_simp
  have p: "concat (map (digit_pairs ''1122334455'' [0, 2, 3, 5, 6, 8, 9, 11, 12, 14]) [0..<max_iter])
      = [(0, 2), (3, 5), (6, 8), (9, 11), (12, 14)]"
    by code_simp
  have u: "fst (ring_updates ''1122334455'' [0, 2, 3, 5, 6, 8, 9, 11, 12, 14])
       = [(0, 2), (3, 5), (6, 8), (9, 11), (12, 14)]"
    using ring_digits_one_to_five
      [of A "''1122334455''" "[0, 2, 3, 5, 6, 8, 9, 11, 12, 14]" A' d a b] a p
    by simp
  show ?thesis
    using s h e a u by simp
qed

text \<open>
  Claim C6, as stated, fails: in \<open>C1CC1=C1CC1\<close> the digit 1 occurs behind the atoms 0, 2,
  3 and 5, so \<open>(2, 3)\<close> is one of its pairs; the bond \<open>(2, 3)\<close> has order 2 before the ring
  stage and order 1 after it.
\<close>

theorem ring_overrides_counterexample:
  "map_option (\<lambda>s. (2, 3) \<in> set (fst (ring_updates (topology_chrs s) (topology_idxs s))))
      (read_smiles ''C1CC1=C1CC1'') = Some True
   \<and> map_option (\<lambda>m. entry m (2, 3)) (Option.bind (read_smiles ''C1CC1=C1CC1'') resolve_branches) = Some 2
   \<and> map_option (\<lambda>m. entry m (2, 3)) (Option.bind (read_smiles ''C1CC1=C1CC1'') resolve_rings) = Some 1"
  by code_simp

text \<open>
  Claim C6, amended. The ring stage overwrites: every pair of atoms connected by a
  ring-closure digit gets the bond order 1, whatever order the entry held before, and no
  other entry of the bond matrix changes. A bond that was there before the stage is
  unchanged at a ring pair only when its order already was 1.
\<close>

theorem ring_stage_overwrites:
  "ring_stage A chrs idxs = Some A' \<and> valid_index A ij \<longrightarrow>
     entry A' ij = (if ij \<in> set (fst (ring_updates chrs idxs)) then 1 else entry A ij)"
  using ring_stage_entry by blast

theorem ring_stage_overwrites_witness:
  "ring_stage [[0, 3, 0], [0, 0, 1], [0, 0, 0]] ''11'' [0, 1]
       = Some [[0, 1, 0], [0, 0, 1], [0, 0, 0]]
   \<and> valid_index [[0, 3, 0], [0, 0, 1], [0, 0, 0]] (0, 1)
   \<and> fst (ring_updates ''11'' [0, 1]) = [(0, 1)]
   \<and> entry [[0, 1, 0], [0, 0, 1], [0, 0, 0]] (0, 1) = 1
   \<and> entry [[0, 1, 0], [0, 0, 1], [0, 0, 0]] (1, 2) = entry [[0, 3, 0], [0, 0, 1], [0, 0, 0]] (1, 2)"
proof -
  let ?A = "[[0, 3, 0], [0, 0, 1], [0, 0, 0 :: rat]]"
  let ?A' = "[[0, 1, 0], [0, 0, 1], [0, 0, 0 :: rat]]"
  have s: "ring_stage ?A ''11'' [0, 1] = Some ?A'"
    by code_simp
  have v: "valid_index ?A (0, 1)" "valid_index ?A (1, 2)"
    by code_simp+
  have u: "fst (ring_updates ''11'' [0, 1]) = [(0, 1)]"
    by code_simp
  have e1: "entry ?A' (0, 1) = 1"
    using ring_stage_overwrites [of ?A "''11''" "[0, 1]" ?A' "(0, 1)"] s v u by simp
  have e2: "entry ?A' (1, 2) = entry ?A (1, 2)"
    using ring_stage_overwrites [of ?A "''11''" "[0, 1]" ?A' "(1, 2)"] s v u by simp
  show ?thesis
    using s v u e1 e2 by simp
qed

section \<open>Properties of the branch stage\<close>

lemma process_right_left_overlap_eq:
  "process_right_left_overlap l rc = l[snd rc := l ! fst rc]"
  by (rule nth_equalityI) (simp_all add: process_right_left_overlap_def nth_list_update)

lemma length_foldl_process [simp]:
  "length (foldl process_right_left_overlap l ovs) = length l"
  by (induction ovs arbitrary: l) (simp_all add: process_right_left_overlap_eq)

lemma row_effect:
  assumes "r \<notin> set cs" and "i < length l"
  shows "foldl process_right_left_overlap l (map (\<lambda>c. (r, c)) cs) ! i
     = (if i \<in> set cs then l ! r else l ! i)"
  using assms
proof (induction cs arbitrary: l)
  case Nil
  show ?case by simp
next
  case (Cons c cs)
  let ?l1 = "l[c := l ! r]"
  from Cons.prems have rc: "r \<noteq> c" and r: "r \<notin> set cs" and i: "i < length ?l1"
    by auto
  have "foldl process_right_left_overlap ?l1 (map (\<lambda>c. (r, c)) cs) ! i
     = (if i \<in> set cs then ?l1 ! r else ?l1 ! i)"
    using r i by (rule Cons.IH)
  moreover have "?l1 ! r = l ! r"
    using rc by simp
  moreover have "?l1 ! i = (if i = c then l ! r else l ! i)"
    using Cons.prems(2) by (simp add: nth_list_update)
  moreover have "foldl process_right_left_overlap l (map (\<lambda>c. (r, c)) (c # cs))
     = foldl process_right_left_overlap ?l1 (map (\<lambda>c. (r, c)) cs)"
    by (simp add: process_right_left_overlap_eq [of l "(r, c)"])
  ultimately show ?case
    by auto
qed

lemma overlaps_rows: "left_right_overlaps ls rs = concat (map (overlap_row ls rs) [0..<length rs])"
  unfolding left_right_overlaps_def overlap_row_def by (rule refl)

lemma foldl_overlaps:
  "foldl process_right_left_overlap l (concat (map (overlap_row ls rs) R))
     = foldl (overlap_step ls rs) l R"
  by (induction R arbitrary: l) (simp_all add: overlap_step_def)

lemma length_overlap_step [simp]: "length (overlap_step ls rs l r) = length l"
  by (simp add: overlap_step_def)

lemma length_foldl_overlap_step [simp]: "length (foldl (overlap_step ls rs) l R) = length l"
  by (induction R arbitrary: l) simp_all

lemma overlap_step_nth:
  assumes "ls ! r \<noteq> rs ! r \<or> length ls \<le> r" and "i < length l" and "length l = length ls"
  shows "overlap_step ls rs l r ! i = (if ls ! i = rs ! r then l ! r else l ! i)"
proof -
  have "r \<notin> set (filter (\<lambda>c. ls ! c - rs ! r = 0) [0..<length ls])"
    using assms(1) by auto
  from row_effect [OF this assms(2)] show ?thesis
    using assms(2,3) by (simp add: overlap_step_def overlap_row_def)
qed

lemma untouched:
  assumes "\<forall>r\<in>set R. ls ! i \<noteq> rs ! r \<and> (ls ! r \<noteq> rs ! r \<or> length ls \<le> r)"
    and "i < length l" and "length l = length ls"
  shows "foldl (overlap_step ls rs) l R ! i = l ! i"
  using assms
proof (induction R arbitrary: l)
  case Nil
  show ?case by simp
next
  case (Cons r R)
  have "foldl (overlap_step ls rs) (overlap_step ls rs l r) R ! i = overlap_step ls rs l r ! i"
    using Cons.prems by (intro Cons.IH) simp_all
  also have "\<dots> = l ! i"
    using Cons.prems by (simp add: overlap_step_nth)
  finally show ?case by simp
qed

lemma set_left_right_overlaps:
  "set (left_right_overlaps ls rs) = {(r, c). r < length rs \<and> c < length ls \<and> ls ! c = rs ! r}"
  by (auto simp: left_right_overlaps_def)

lemma overlap_pass_last_match:
  assumes len: "length ls = length rs"
    and fwd: "list_all (\<lambda>rc. fst rc < snd rc) (left_right_overlaps ls rs)"
    and r: "r < length rs" and c: "c < length rs"
    and m: "ls ! c = rs ! r"
    and last: "list_all (\<lambda>r'. rs ! r' \<noteq> ls ! c) [Suc r..<length rs]"
  shows "foldl process_right_left_overlap ls (left_right_overlaps ls rs) ! c
       = foldl process_right_left_overlap ls (left_right_overlaps ls rs) ! r"
proof -
  let ?k = "length rs"
  have F: "\<And>r' c'. r' < ?k \<Longrightarrow> c' < ?k \<Longrightarrow> ls ! c' = rs ! r' \<Longrightarrow> r' < c'"
    using fwd len by (auto simp: list_all_iff set_left_right_overlaps)
  have noself: "\<And>r'. ls ! r' \<noteq> rs ! r' \<or> length ls \<le> r'"
    using F len by (metis less_irrefl not_le_imp_less)
  define L0 where "L0 = foldl (overlap_step ls rs) ls [0..<r]"
  define L1 where "L1 = overlap_step ls rs L0 r"
  define L where "L = foldl (overlap_step ls rs) L1 [Suc r..<?k]"
  have split: "[0..<?k] = [0..<r] @ r # [Suc r..<?k]"
    using r by (metis le0 less_imp_le_nat upt_add_eq_append le_add_diff_inverse upt_conv_Cons)
  have final: "foldl process_right_left_overlap ls (left_right_overlaps ls rs) = L"
    unfolding overlaps_rows foldl_overlaps split L_def L1_def L0_def by simp
  have l0: "length L0 = length ls" and l1: "length L1 = length ls"
    by (simp_all add: L0_def L1_def)
  have c1: "L1 ! c = L0 ! r"
    unfolding L1_def using noself c m l0 len by (simp add: overlap_step_nth)
  have rr: "ls ! r \<noteq> rs ! r"
    using F [OF r r] by auto
  have r1: "L1 ! r = L0 ! r"
    unfolding L1_def using noself r l0 len rr by (simp add: overlap_step_nth)
  have "L ! c = L1 ! c"
    unfolding L_def
  proof (rule untouched)
    show "\<forall>r'\<in>set [Suc r..<?k]. ls ! c \<noteq> rs ! r' \<and> (ls ! r' \<noteq> rs ! r' \<or> length ls \<le> r')"
      using last noself by (auto simp: list_all_iff)
    show "c < length L1" using c l1 len by simp
    show "length L1 = length ls" by (rule l1)
  qed
  moreover have "L ! r = L1 ! r"
    unfolding L_def
  proof (rule untouched)
    show "\<forall>r'\<in>set [Suc r..<?k]. ls ! r \<noteq> rs ! r' \<and> (ls ! r' \<noteq> rs ! r' \<or> length ls \<le> r')"
    proof
      fix r' assume "r' \<in> set [Suc r..<?k]"
      then have r': "r < r'" "r' < ?k" by auto
      have "ls ! r \<noteq> rs ! r'"
        using F [OF r'(2) r] r'(1) by auto
      then show "ls ! r \<noteq> rs ! r' \<and> (ls ! r' \<noteq> rs ! r' \<or> length ls \<le> r')"
        using noself by simp
    qed
    show "r < length L1" using r l1 len by simp
    show "length L1 = length ls" by (rule l1)
  qed
  ultimately show ?thesis
    unfolding final using c1 r1 by simp
qed

lemma overlap_pass_no_match:
  assumes len: "length ls = length rs"
    and fwd: "list_all (\<lambda>rc. fst rc < snd rc) (left_right_overlaps ls rs)"
    and c: "c < length rs"
    and none: "list_all (\<lambda>r'. rs ! r' \<noteq> ls ! c) [0..<length rs]"
  shows "foldl process_right_left_overlap ls (left_right_overlaps ls rs) ! c = ls ! c"
proof -
  have F: "\<And>r' c'. r' < length rs \<Longrightarrow> c' < length rs \<Longrightarrow> ls ! c' = rs ! r' \<Longrightarrow> r' < c'"
    using fwd len by (auto simp: list_all_iff set_left_right_overlaps)
  have noself: "\<And>r'. ls ! r' \<noteq> rs ! r' \<or> length ls \<le> r'"
    using F len by (metis less_irrefl not_le_imp_less)
  have "foldl (overlap_step ls rs) ls [0..<length rs] ! c = ls ! c"
  proof (rule untouched)
    show "\<forall>r'\<in>set [0..<length rs]. ls ! c \<noteq> rs ! r' \<and> (ls ! r' \<noteq> rs ! r' \<or> length ls \<le> r')"
      using none noself by (auto simp: list_all_iff)
    show "c < length ls" using c len by simp
    show "length ls = length ls" ..
  qed
  then show ?thesis
    by (simp add: overlaps_rows foldl_overlaps)
qed


lemma rewire_parts:
  assumes "rewire A ls rs = Some A'"
  obtains A1 where
    "list_all (valid_index A) (map (\<lambda>r. (r, r + 1)) rs)"
    "scatter_nd_update A (map (\<lambda>r. (r, r + 1)) rs) (map (\<lambda>k. 0) (map (\<lambda>r. (r, r + 1)) rs)) = Some A1"
    "scatter_nd_update A1 (map2 (\<lambda>l r. (l, r + 1)) ls rs)
       (map (entry A) (map (\<lambda>r. (r, r + 1)) rs)) = Some A'"
  using assms
  by (auto simp: rewire_def gather_nd_def Let_def o_def split: bind_splits if_splits)

lemma rewire_entries:
  assumes rw: "rewire A ls rs = Some A'" and len: "length ls = length rs"
    and i: "i < length rs" and ne: "list_all (\<lambda>j. ls ! j \<noteq> rs ! j) [0..<length rs]"
  shows "entry A' (rs ! i, rs ! i + 1) = 0 \<and> entry A' (ls ! i, rs ! i + 1) = entry A (rs ! i, rs ! i + 1)"
proof -
  let ?cur = "map (\<lambda>r. (r, r + 1)) rs"
  let ?new = "map2 (\<lambda>l r. (l, r + 1)) ls rs"
  let ?ords = "map (entry A) ?cur"
  let ?ij = "(ls ! i, rs ! i + 1)"
  from rw obtain A1 where val: "list_all (valid_index A) ?cur"
    and s1: "scatter_nd_update A ?cur (map (\<lambda>k. 0) ?cur) = Some A1"
    and s2: "scatter_nd_update A1 ?new ?ords = Some A'"
    by (rule rewire_parts)
  have newj: "?new ! j = (ls ! j, rs ! j + 1)" if "j < length rs" for j
    using that len by simp
  have ordj: "?ords ! j = entry A (rs ! j, rs ! j + 1)" if "j < length rs" for j
    using that by simp
  have lnew: "length ?new = length rs" and lords: "length ?ords = length rs"
    and lzip: "length (zip ?new ?ords) = length rs"
    using len by simp_all
  have zipj: "zip ?new ?ords ! j = (?new ! j, ?ords ! j)" if "j < length rs" for j
    using that lnew lords by (intro nth_zip) simp_all
  have v_cur: "valid_index A (rs ! i, rs ! i + 1)"
    using val i by (simp add: list_all_length)
  have cur_i: "(rs ! i, rs ! i + 1) \<in> set ?cur"
    using i by simp
  have e1: "entry A1 (rs ! i, rs ! i + 1) = 0"
    using scatter_nd_update_const [OF s1 v_cur] cur_i by simp
  have notnew: "(rs ! i, rs ! i + 1) \<notin> set ?new"
  proof
    assume "(rs ! i, rs ! i + 1) \<in> set ?new"
    then obtain j where j: "j < length ?new" and eq: "?new ! j = (rs ! i, rs ! i + 1)"
      unfolding in_set_conv_nth by blast
    from j have j': "j < length rs" using lnew by simp
    from eq newj [OF j'] have "ls ! j = rs ! j" by simp
    moreover from ne j' have "ls ! j \<noteq> rs ! j" by (simp add: list_all_iff)
    ultimately show False by simp
  qed
  have "(rs ! i, rs ! i + 1) \<notin> fst ` set (rev (zip ?new ?ords))"
  proof
    assume "(rs ! i, rs ! i + 1) \<in> fst ` set (rev (zip ?new ?ords))"
    then obtain v where "((rs ! i, rs ! i + 1), v) \<in> set (zip ?new ?ords)"
      by auto
    then have "(rs ! i, rs ! i + 1) \<in> set ?new"
      by (rule set_zip_leftD)
    with notnew show False ..
  qed
  then have none: "map_of (rev (zip ?new ?ords)) (rs ! i, rs ! i + 1) = None"
    unfolding map_of_eq_None_iff .
  have v1_cur: "valid_index A1 (rs ! i, rs ! i + 1)"
    using v_cur scatter_nd_update_valid [OF s1] by simp
  have part1: "entry A' (rs ! i, rs ! i + 1) = 0"
    using scatter_nd_update_entry [OF s2 v1_cur] none e1 by simp
  have "?new ! i \<in> set ?new"
    using i lnew by (intro nth_mem) simp
  then have in_new: "?ij \<in> set ?new"
    using newj [OF i] by simp
  have v1: "valid_index A1 ?ij"
    using s2 in_new by (rule scatter_nd_update_valid_idxs)
  have "zip ?new ?ords ! i \<in> set (zip ?new ?ords)"
    using i lzip by (intro nth_mem) simp
  then have "(?ij, ?ords ! i) \<in> set (rev (zip ?new ?ords))"
    using zipj [OF i] newj [OF i] by simp
  then have "?ij \<in> fst ` set (rev (zip ?new ?ords))"
    by (rule image_eqI [rotated]) simp
  then have "map_of (rev (zip ?new ?ords)) ?ij \<noteq> None"
    unfolding map_of_eq_None_iff not_not .
  then obtain v where mv: "map_of (rev (zip ?new ?ords)) ?ij = Some v"
    by blast
  then have "(?ij, v) \<in> set (rev (zip ?new ?ords))"
    by (rule map_of_SomeD)
  then have "(?ij, v) \<in> set (zip ?new ?ords)"
    by simp
  then obtain j where j: "j < length (zip ?new ?ords)" and zj: "zip ?new ?ords ! j = (?ij, v)"
    unfolding in_set_conv_nth by blast
  from j have j': "j < length rs" using lzip by simp
  from zj zipj [OF j'] have nj: "?new ! j = ?ij" and oj: "?ords ! j = v"
    by simp_all
  from nj newj [OF j'] have "rs ! j = rs ! i"
    by simp
  with oj ordj [OF j'] have "v = entry A (rs ! i, rs ! i + 1)"
    by simp
  then have part2: "entry A' ?ij = entry A (rs ! i, rs ! i + 1)"
    using scatter_nd_update_entry [OF s2 v1] mv by simp
  from part1 part2 show ?thesis ..
qed

lemma length_kept_corrected:
  "length (corrected_left_bracket_idxs n ps) = length (kept_right_bracket_idxs n ps)"
proof -
  have "length (kept_right_bracket_idxs n ps) \<le> length ps"
    by (simp add: kept_right_bracket_idxs_def)
  then show ?thesis
    by (simp add: corrected_left_bracket_idxs_def Let_def)
qed


lemma foldl_process_le:
  assumes "set ovs \<subseteq> set (left_right_overlaps ls rs)"
    and "length l = length ls" and "\<forall>i<length ls. l ! i \<le> ls ! i"
    and "length ls = length rs" and "\<forall>j<length rs. ls ! j < rs ! j"
  shows "\<forall>i<length ls. foldl process_right_left_overlap l ovs ! i \<le> ls ! i"
  using assms(1,2,3)
proof (induction ovs arbitrary: l)
  case Nil
  then show ?case by simp
next
  case (Cons ov ovs)
  obtain r c where ov: "ov = (r, c)" by (cases ov)
  from Cons.prems(1) ov have "(r, c) \<in> set (left_right_overlaps ls rs)"
    by simp
  then have r: "r < length rs" and c: "c < length ls" and m: "ls ! c = rs ! r"
    by (simp_all add: set_left_right_overlaps)
  let ?l1 = "l[c := l ! r]"
  have "l ! r \<le> ls ! r"
    using Cons.prems(3) r assms(4) by simp
  also have "ls ! r < rs ! r"
    using assms(5) r by simp
  finally have lr: "l ! r \<le> ls ! c"
    using m by simp
  have le1: "\<forall>i<length ls. ?l1 ! i \<le> ls ! i"
  proof (intro allI impI)
    fix i assume i: "i < length ls"
    show "?l1 ! i \<le> ls ! i"
    proof (cases "i = c")
      case True
      with i Cons.prems(2) lr show ?thesis by simp
    next
      case False
      with i Cons.prems(3) show ?thesis by simp
    qed
  qed
  have "\<forall>i<length ls. foldl process_right_left_overlap ?l1 ovs ! i \<le> ls ! i"
    using Cons.prems(1,2) le1 by (intro Cons.IH) simp_all
  then show ?case
    by (simp add: ov process_right_left_overlap_eq [of l "(r, c)"])
qed

lemma corrected_left_before_right:
  assumes "list_all (\<lambda>j. take (length (kept_right_bracket_idxs n ps)) (map fst ps) ! j
             < kept_right_bracket_idxs n ps ! j) [0..<length (kept_right_bracket_idxs n ps)]"
  shows "list_all (\<lambda>j. corrected_left_bracket_idxs n ps ! j \<noteq> kept_right_bracket_idxs n ps ! j)
           [0..<length (kept_right_bracket_idxs n ps)]"
proof -
  let ?rs = "kept_right_bracket_idxs n ps"
  let ?ls = "take (length ?rs) (map fst ps)"
  have "length ?rs \<le> length ps"
    by (simp add: kept_right_bracket_idxs_def)
  then have len: "length ?ls = length ?rs"
    by simp
  have lt: "\<forall>j<length ?rs. ?ls ! j < ?rs ! j"
    using assms by (simp add: list_all_iff)
  have "\<forall>i<length ?ls. foldl process_right_left_overlap ?ls (left_right_overlaps ?ls ?rs) ! i \<le> ?ls ! i"
    by (rule foldl_process_le [OF subset_refl refl _ len lt]) simp
  then have "\<forall>j<length ?rs. corrected_left_bracket_idxs n ps ! j \<le> ?ls ! j"
    using len by (simp add: corrected_left_bracket_idxs_def Let_def)
  with lt have "\<forall>j<length ?rs. corrected_left_bracket_idxs n ps ! j < ?rs ! j"
    by fastforce
  then show ?thesis
    by (fastforce simp: list_all_iff)
qed

text \<open>
  Claim C4. The branch resolver keeps the recorded pairs whose right marker is not the
  last atom, so that \<open>right + 1\<close> is an atom, and rewires every kept pair \<open>(left, right)\<close>,
  \<open>left\<close> being the pair's left anchor when the bonds are written, that is after the
  overlap pass (the anchor found by the scan when no overlap was detected): the bond
  \<open>(right, right + 1)\<close> is set to 0 and the bond \<open>(left, right + 1)\<close> to the order that
  \<open>(right, right + 1)\<close> held before the stage. The input is taken to be well formed in that
  every branch holds an atom: the anchor the scan found for a kept pair lies before its
  right marker. For \<open>CC(C)C\<close> atom 1 ends bonded to the atoms 0, 2 and 3 with order 1
  each, and the bond \<open>(2, 3)\<close> is 0.
\<close>

theorem branch_rewires_kept_pairs:
  "(bracket_pairs_of chrs idxs = Some ps \<and> branch_stage n A chrs idxs = Some A'
      \<and> ls = corrected_left_bracket_idxs n ps \<and> rs = kept_right_bracket_idxs n ps
      \<and> i < length rs
      \<and> list_all (\<lambda>j. take (length rs) (map fst ps) ! j < rs ! j) [0..<length rs] \<longrightarrow>
        entry A' (rs ! i, rs ! i + 1) = 0
        \<and> entry A' (ls ! i, rs ! i + 1) = entry A (rs ! i, rs ! i + 1))
   \<and> list_all (\<lambda>r. r + 1 \<noteq> int n) (kept_right_bracket_idxs n ps)
   \<and> (left_right_overlaps (take (length (kept_right_bracket_idxs n ps)) (map fst ps))
          (kept_right_bracket_idxs n ps) = [] \<longrightarrow>
        corrected_left_bracket_idxs n ps
          = take (length (kept_right_bracket_idxs n ps)) (map fst ps))
   \<and> smiles_to_organic_topological_molecule ''CC(C)C''
        = Some ([0, 0, 0, 0], [[0, 1, 0, 0], [0, 0, 1, 1], [0, 0, 0, 0], [0, 0, 0, 0]])"
proof (intro conjI impI)
  assume h: "bracket_pairs_of chrs idxs = Some ps \<and> branch_stage n A chrs idxs = Some A'
      \<and> ls = corrected_left_bracket_idxs n ps \<and> rs = kept_right_bracket_idxs n ps
      \<and> i < length rs
      \<and> list_all (\<lambda>j. take (length rs) (map fst ps) ! j < rs ! j) [0..<length rs]"
  then have rw: "rewire A ls rs = Some A'"
    by (auto simp: branch_stage_def)
  have len: "length ls = length rs"
    using h by (simp add: length_kept_corrected)
  from h have i: "i < length rs"
    by blast
  from h have ne: "list_all (\<lambda>j. ls ! j \<noteq> rs ! j) [0..<length rs]"
    using corrected_left_before_right [of n ps] by blast
  note e = rewire_entries [OF rw len i ne]
  from e show "entry A' (rs ! i, rs ! i + 1) = 0" ..
  from e show "entry A' (ls ! i, rs ! i + 1) = entry A (rs ! i, rs ! i + 1)" ..
next
  show "list_all (\<lambda>r. r + 1 \<noteq> int n) (kept_right_bracket_idxs n ps)"
    by (auto simp: kept_right_bracket_idxs_def list_all_iff)
next
  assume "left_right_overlaps (take (length (kept_right_bracket_idxs n ps)) (map fst ps))
          (kept_right_bracket_idxs n ps) = []"
  then show "corrected_left_bracket_idxs n ps
          = take (length (kept_right_bracket_idxs n ps)) (map fst ps)"
    by (simp add: corrected_left_bracket_idxs_def Let_def)
next
  show "smiles_to_organic_topological_molecule ''CC(C)C''
        = Some ([0, 0, 0, 0], [[0, 1, 0, 0], [0, 0, 1, 1], [0, 0, 0, 0], [0, 0, 0, 0]])"
    by code_simp
qed

text \<open>
  In \<open>CC(C)(C)=C\<close> the scan finds the pairs \<open>(1, 2)\<close> and \<open>(2, 3)\<close>, and the overlap pass
  gives both the left anchor 1. The matrix is the one after the bond-order stage: the
  second pair moves the double bond \<open>(3, 4)\<close> to \<open>(1, 4)\<close>, the first the single bond
  \<open>(2, 3)\<close> to \<open>(1, 3)\<close>.
\<close>

theorem branch_rewires_kept_pairs_witness:
  "map_option (\<lambda>s. (topology_chrs s, topology_idxs s, n_atoms s)) (read_smiles ''CC(C)(C)=C'')
       = Some (''()()='', [1, 2, 2, 3, 3], 5)
   \<and> Option.bind (read_smiles ''CC(C)(C)=C'') resolve_bond_orders
       = Some [[0, 1, 0, 0, 0], [0, 0, 1, 0, 0], [0, 0, 0, 1, 0], [0, 0, 0, 0, 2], [0, 0, 0, 0, 0]]
   \<and> bracket_pairs_of ''()()='' [1, 2, 2, 3, 3] = Some [(1, 2), (2, 3)]
   \<and> branch_stage 5 [[0, 1, 0, 0, 0], [0, 0, 1, 0, 0], [0, 0, 0, 1, 0], [0, 0, 0, 0, 2], [0, 0, 0, 0, 0]]
         ''()()='' [1, 2, 2, 3, 3]
       = Some [[0, 1, 0, 0, 0], [0, 0, 1, 1, 2], [0, 0, 0, 0, 0], [0, 0, 0, 0, 0], [0, 0, 0, 0, 0]]
   \<and> corrected_left_bracket_idxs 5 [(1, 2), (2, 3)] = [1, 1]
   \<and> kept_right_bracket_idxs 5 [(1, 2), (2, 3)] = [2, 3]
   \<and> list_all (\<lambda>j. take (length [2, 3 :: int]) (map fst [(1, 2), (2 :: int, 3 :: int)]) ! j < [2, 3] ! j)
        [0..<length [2, 3 :: int]]
   \<and> entry [[0, 1, 0, 0, 0], [0, 0, 1, 1, 2], [0, 0, 0, 0, 0], [0, 0, 0, 0, 0], [0, 0, 0, 0, 0]] (3, 4) = 0
   \<and> entry [[0, 1, 0, 0, 0], [0, 0, 1, 1, 2], [0, 0, 0, 0, 0], [0, 0, 0, 0, 0], [0, 0, 0, 0, 0]] (1, 4)
       = entry [[0, 1, 0, 0, 0], [0, 0, 1, 0, 0], [0, 0, 0, 1, 0], [0, 0, 0, 0, 2], [0, 0, 0, 0, 0]] (3, 4)
   \<and> entry [[0, 1, 0, 0, 0], [0, 0, 1, 1, 2], [0, 0, 0, 0, 0], [0, 0, 0, 0, 0], [0, 0, 0, 0, 0]] (2, 3) = 0
   \<and> entry [[0, 1, 0, 0, 0], [0, 0, 1, 1, 2], [0, 0, 0, 0, 0], [0, 0, 0, 0, 0], [0, 0, 0, 0, 0]] (1, 3)
       = entry [[0, 1, 0, 0, 0], [0, 0, 1, 0, 0], [0, 0, 0, 1, 0], [0, 0, 0, 0, 2], [0, 0, 0, 0, 0]] (2, 3)"
proof -
  let ?A = "[[0, 1, 0, 0, 0], [0, 0, 1, 0, 0], [0, 0, 0, 1, 0], [0, 0, 0, 0, 2], [0, 0, 0, 0, 0 :: rat]]"
  let ?A' = "[[0, 1, 0, 0, 0], [0, 0, 1, 1, 2], [0, 0, 0, 0, 0], [0, 0, 0, 0, 0], [0, 0, 0, 0, 0 :: rat]]"
  let ?ps = "[(1, 2), (2 :: int, 3 :: int)]"
  have r: "map_option (\<lambda>s. (topology_chrs s, topology_idxs s, n_atoms s)) (read_smiles ''CC(C)(C)=C'')
       = Some (''()()='', [1, 2, 2, 3, 3], 5)"
    by code_simp
  have o: "Option.bind (read_smiles ''CC(C)(C)=C'') resolve_bond_orders = Some ?A"
    by code_simp
  have p: "bracket_pairs_of ''()()='' [1, 2, 2, 3, 3] = Some ?ps"
    by code_simp
  have b: "branch_stage 5 ?A ''()()='' [1, 2, 2, 3, 3] = Some ?A'"
    by code_simp
  have l: "[1, 1] = corrected_left_bracket_idxs 5 ?ps"
    and k: "[2, 3] = kept_right_bracket_idxs 5 ?ps"
    by code_simp+
  have w: "list_all (\<lambda>j. take (length [2, 3 :: int]) (map fst ?ps) ! j < [2, 3] ! j)
        [0..<length [2, 3 :: int]]"
    by (simp add: upt_rec)
  have i1: "(1::nat) < length [2, 3 :: int]" and i0: "(0::nat) < length [2, 3 :: int]"
    by simp_all
  have "entry ?A' ([2, 3] ! 1, [2, 3] ! 1 + 1) = 0
      \<and> entry ?A' ([1, 1] ! 1, [2, 3] ! 1 + 1) = entry ?A ([2, 3] ! 1, [2, 3] ! 1 + 1)"
    using branch_rewires_kept_pairs
      [of "''()()=''" "[1, 2, 2, 3, 3]" ?ps 5 ?A ?A' "[1, 1]" "[2, 3]" 1] p b l k i1 w
    by blast
  then have e1: "entry ?A' (3, 4) = 0 \<and> entry ?A' (1, 4) = entry ?A (3, 4)"
    by simp
  have "entry ?A' ([2, 3] ! 0, [2, 3] ! 0 + 1) = 0
      \<and> entry ?A' ([1, 1] ! 0, [2, 3] ! 0 + 1) = entry ?A ([2, 3] ! 0, [2, 3] ! 0 + 1)"
    using branch_rewires_kept_pairs
      [of "''()()=''" "[1, 2, 2, 3, 3]" ?ps 5 ?A ?A' "[1, 1]" "[2, 3]" 0] p b l k i0 w
    by blast
  then have e0: "entry ?A' (2, 3) = 0 \<and> entry ?A' (1, 3) = entry ?A (2, 3)"
    by simp
  from r o p b l [symmetric] k [symmetric] w e1 e0 show ?thesis
    by (intro conjI) (simp_all only: simp_thms)
qed

text \<open>
  Claim C5, as stated, fails: in \<open>C(C(C))(C)C\<close> the recorded pairs are \<open>(1, 2)\<close>,
  \<open>(0, 2)\<close> and \<open>(2, 3)\<close>. The left anchor 2 of the third pair equals the right marker of
  the first pair, but after the overlap pass the third pair has the left anchor 0 and the
  first pair the left anchor 1.
\<close>

theorem overlap_pass_counterexample:
  "Option.bind (read_smiles ''C(C(C))(C)C'') (\<lambda>s. bracket_pairs_of (topology_chrs s) (topology_idxs s))
     = Some [(1, 2), (0, 2), (2, 3)]
   \<and> map_option n_atoms (read_smiles ''C(C(C))(C)C'') = Some 5
   \<and> kept_right_bracket_idxs 5 [(1, 2), (0, 2), (2, 3)] = [2, 2, 3]
   \<and> corrected_left_bracket_idxs 5 [(1, 2), (0, 2), (2, 3)] = [1, 0, 0]"
  by code_simp

text \<open>
  Claim C5, amended. The overlap pass goes through the pairs (earlier pair \<open>r\<close>, later
  pair \<open>c\<close>) in which the left anchor of \<open>c\<close> equals the right marker of \<open>r\<close>, ordered by \<open>r\<close>
  and then by \<open>c\<close>, and writes the current left anchor of \<open>r\<close> over that of \<open>c\<close>. When
  every such overlap has its earlier pair first, the left anchor of a later pair ends
  equal to the final left anchor of the last earlier pair whose right marker it
  matched (so to that of the earlier pair when only one matches), and a pair whose left
  anchor matches no right marker keeps it. In \<open>CC(C)(C)C\<close> both branch atoms and the
  following chain atom are bonded to atom 1.
\<close>

theorem overlap_pass_rewrites_to_last_match:
  "(rs = kept_right_bracket_idxs n ps \<and> ls = take (length rs) (map fst ps)
      \<and> ls' = corrected_left_bracket_idxs n ps
      \<and> list_all (\<lambda>rc. fst rc < snd rc) (left_right_overlaps ls rs)
      \<and> r < length rs \<and> c < length rs \<and> ls ! c = rs ! r
      \<and> list_all (\<lambda>r'. rs ! r' \<noteq> ls ! c) [Suc r..<length rs] \<longrightarrow> ls' ! c = ls' ! r)
   \<and> (rs = kept_right_bracket_idxs n ps \<and> ls = take (length rs) (map fst ps)
      \<and> ls' = corrected_left_bracket_idxs n ps
      \<and> list_all (\<lambda>rc. fst rc < snd rc) (left_right_overlaps ls rs)
      \<and> c < length rs \<and> list_all (\<lambda>r'. rs ! r' \<noteq> ls ! c) [0..<length rs] \<longrightarrow> ls' ! c = ls ! c)
   \<and> smiles_to_organic_topological_molecule ''CC(C)(C)C''
        = Some ([0, 0, 0, 0, 0],
            [[0, 1, 0, 0, 0], [0, 0, 1, 1, 1], [0, 0, 0, 0, 0], [0, 0, 0, 0, 0], [0, 0, 0, 0, 0]])"
proof (intro conjI impI)
  assume h: "rs = kept_right_bracket_idxs n ps \<and> ls = take (length rs) (map fst ps)
      \<and> ls' = corrected_left_bracket_idxs n ps
      \<and> list_all (\<lambda>rc. fst rc < snd rc) (left_right_overlaps ls rs)
      \<and> r < length rs \<and> c < length rs \<and> ls ! c = rs ! r
      \<and> list_all (\<lambda>r'. rs ! r' \<noteq> ls ! c) [Suc r..<length rs]"
  then have len: "length ls = length rs"
    by (simp add: kept_right_bracket_idxs_def)
  have ls': "ls' = foldl process_right_left_overlap ls (left_right_overlaps ls rs)"
    using h by (simp add: corrected_left_bracket_idxs_def Let_def)
  from h have fwd: "list_all (\<lambda>rc. fst rc < snd rc) (left_right_overlaps ls rs)"
    and r: "r < length rs" and c: "c < length rs" and m: "ls ! c = rs ! r"
    and last: "list_all (\<lambda>r'. rs ! r' \<noteq> ls ! c) [Suc r..<length rs]"
    by blast+
  show "ls' ! c = ls' ! r"
    unfolding ls' using len fwd r c m last by (rule overlap_pass_last_match)
next
  assume h: "rs = kept_right_bracket_idxs n ps \<and> ls = take (length rs) (map fst ps)
      \<and> ls' = corrected_left_bracket_idxs n ps
      \<and> list_all (\<lambda>rc. fst rc < snd rc) (left_right_overlaps ls rs)
      \<and> c < length rs \<and> list_all (\<lambda>r'. rs ! r' \<noteq> ls ! c) [0..<length rs]"
  then have len: "length ls = length rs"
    by (simp add: kept_right_bracket_idxs_def)
  have ls': "ls' = foldl process_right_left_overlap ls (left_right_overlaps ls rs)"
    using h by (simp add: corrected_left_bracket_idxs_def Let_def)
  from h have fwd: "list_all (\<lambda>rc. fst rc < snd rc) (left_right_overlaps ls rs)"
    and c: "c < length rs"
    and none: "list_all (\<lambda>r'. rs ! r' \<noteq> ls ! c) [0..<length rs]"
    by blast+
  show "ls' ! c = ls ! c"
    unfolding ls' using len fwd c none by (rule overlap_pass_no_match)
next
  show "smiles_to_organic_topological_molecule ''CC(C)(C)C''
        = Some ([0, 0, 0, 0, 0],
            [[0, 1, 0, 0, 0], [0, 0, 1, 1, 1], [0, 0, 0, 0, 0], [0, 0, 0, 0, 0], [0, 0, 0, 0, 0]])"
    by code_simp
qed

text \<open>The three sibling branches of \<open>CC(C)(C)(C)C\<close>.\<close>

theorem overlap_pass_rewrites_to_last_match_witness:
  "Option.bind (read_smiles ''CC(C)(C)(C)C'') (\<lambda>s. bracket_pairs_of (topology_chrs s) (topology_idxs s))
     = Some [(1, 2), (2, 3), (3, 4)]
   \<and> map_option n_atoms (read_smiles ''CC(C)(C)(C)C'') = Some 6
   \<and> kept_right_bracket_idxs 6 [(1, 2), (2, 3), (3, 4)] = [2, 3, 4]
   \<and> take (length [2, 3, 4 :: int]) (map fst [(1, 2), (2, 3), (3 :: int, 4 :: int)]) = [1, 2, 3]
   \<and> left_right_overlaps [1, 2, 3] [2, 3, 4] = [(0, 1), (1, 2)]
   \<and> corrected_left_bracket_idxs 6 [(1, 2), (2, 3), (3, 4)] = [1, 1, 1]
   \<and> corrected_left_bracket_idxs 6 [(1, 2), (2, 3), (3, 4)] ! 2
       = corrected_left_bracket_idxs 6 [(1, 2), (2, 3), (3, 4)] ! 1
   \<and> corrected_left_bracket_idxs 6 [(1, 2), (2, 3), (3, 4)] ! 0 = [1, 2, 3] ! 0"
proof -
  let ?ps = "[(1, 2), (2, 3), (3 :: int, 4 :: int)]"
  have a: "Option.bind (read_smiles ''CC(C)(C)(C)C'')
      (\<lambda>s. bracket_pairs_of (topology_chrs s) (topology_idxs s)) = Some ?ps"
    and b: "map_option n_atoms (read_smiles ''CC(C)(C)(C)C'') = Some 6"
    by code_simp+
  have k: "[2, 3, 4] = kept_right_bracket_idxs 6 ?ps"
    and t: "[1, 2, 3] = take (length [2, 3, 4 :: int]) (map fst ?ps)"
    and o: "left_right_overlaps [1, 2, 3] [2, 3, 4] = [(0, 1), (1, 2)]"
    and l: "corrected_left_bracket_idxs 6 ?ps = [1, 1, 1]"
    by code_simp+
  have fwd: "list_all (\<lambda>rc. fst rc < snd rc) (left_right_overlaps [1, 2, 3] [2, 3, 4])"
    unfolding o by simp
  have h1: "(1::nat) < length [2, 3, 4 :: int]" "(2::nat) < length [2, 3, 4 :: int]"
    "[1, 2, 3 :: int] ! 2 = [2, 3, 4] ! 1"
    "list_all (\<lambda>r'. [2, 3, 4] ! r' \<noteq> [1, 2, 3 :: int] ! 2) [Suc 1..<length [2, 3, 4 :: int]]"
    by (simp_all add: upt_rec)
  have h2: "(0::nat) < length [2, 3, 4 :: int]"
    "list_all (\<lambda>r'. [2, 3, 4] ! r' \<noteq> [1, 2, 3 :: int] ! 0) [0..<length [2, 3, 4 :: int]]"
    by (simp_all add: upt_rec)
  have e1: "corrected_left_bracket_idxs 6 ?ps ! 2 = corrected_left_bracket_idxs 6 ?ps ! 1"
    using overlap_pass_rewrites_to_last_match
      [of "[2, 3, 4]" 6 ?ps "[1, 2, 3]" "corrected_left_bracket_idxs 6 ?ps" 1 2] k t fwd h1
    by blast
  have e2: "corrected_left_bracket_idxs 6 ?ps ! 0 = [1, 2, 3] ! 0"
    using overlap_pass_rewrites_to_last_match
      [of "[2, 3, 4]" 6 ?ps "[1, 2, 3]" "corrected_left_bracket_idxs 6 ?ps" r 0] k t fwd h2
    by blast
  show ?thesis
    using a b k [symmetric] t [symmetric] o l e1 e2 by simp
qed

section \<open>Aromaticity and conjugated systems\<close>

text \<open>
  Claim C7. For benzene, \<open>c1ccccc1\<close>, the decoder returns a bond matrix with exactly six
  entries that are not zero, the five chain bonds and the ring bond \<open>(0, 5)\<close>, and all six
  hold the same order \<open>3/2\<close>, which lies strictly between 1 and 2.
\<close>

theorem benzene_bond_orders:
  "smiles_to_organic_topological_molecule ''c1ccccc1''
     = Some ([0, 0, 0, 0, 0, 0],
         [[0, 3 / 2, 0, 0, 0, 3 / 2], [0, 0, 3 / 2, 0, 0, 0], [0, 0, 0, 3 / 2, 0, 0],
          [0, 0, 0, 0, 3 / 2, 0], [0, 0, 0, 0, 0, 3 / 2], [0, 0, 0, 0, 0, 0]])
   \<and> map_option (\<lambda>mol. filter (\<lambda>x. x \<noteq> 0) (concat (snd mol)))
        (smiles_to_organic_topological_molecule ''c1ccccc1'') = Some (replicate 6 (3 / 2))
   \<and> (1 :: rat) < 3 / 2 \<and> (3 / 2 :: rat) < 2"
proof (intro conjI)
  show "smiles_to_organic_topological_molecule ''c1ccccc1''
     = Some ([0, 0, 0, 0, 0, 0],
         [[0, 3 / 2, 0, 0, 0, 3 / 2], [0, 0, 3 / 2, 0, 0, 0], [0, 0, 0, 3 / 2, 0, 0],
          [0, 0, 0, 0, 3 / 2, 0], [0, 0, 0, 0, 0, 3 / 2], [0, 0, 0, 0, 0, 0]])"
    by code_simp
  show "map_option (\<lambda>mol. filter (\<lambda>x. x \<noteq> 0) (concat (snd mol)))
        (smiles_to_organic_topological_molecule ''c1ccccc1'') = Some (replicate 6 (3 / 2))"
    by code_simp
  show "(1 :: rat) < 3 / 2" and "(3 / 2 :: rat) < 2"
    by simp_all
qed

text \<open>
  Claim C10 does not hold on the code. In \<open>O=c1ccocc1\<close> atom 1 is aromatic and has a
  double bond, so it is listed twice among the candidates and each of its three bonds
  is counted twice in the total and in the count: the mean is \<open>16 / 10\<close>. All seven bonds
  of the one component are overwritten with it, and their sum goes from 11 to \<open>56 / 5\<close>.
\<close>

theorem conjugation_total_not_conserved:
  "Option.bind (read_smiles ''O=c1ccocc1'')
      (\<lambda>s. Option.bind (resolve_aromatic s)
         (\<lambda>m. sp2_idxs_of (n_atoms s) (atoms s) (aromatic_idxs s) (full_adjacency_map m)))
     = Some [0, 1, 1, 2, 3, 4, 5, 6]
   \<and> map_option (\<lambda>m. (length (filter (\<lambda>x. x \<noteq> 0) (concat m)), sum_list (concat m)))
        (Option.bind (read_smiles ''O=c1ccocc1'') resolve_aromatic) = Some (7, 11)
   \<and> map_option (\<lambda>m. filter (\<lambda>x. x \<noteq> 0) (concat m))
        (Option.bind (read_smiles ''O=c1ccocc1'') resolve_conjugate) = Some (replicate 7 (8 / 5))
   \<and> map_option (\<lambda>m. sum_list (concat m))
        (Option.bind (read_smiles ''O=c1ccocc1'') resolve_conjugate) = Some (56 / 5)
   \<and> (56 / 5 :: rat) \<noteq> 11"
proof (intro conjI)
  show "Option.bind (read_smiles ''O=c1ccocc1'')
      (\<lambda>s. Option.bind (resolve_aromatic s)
         (\<lambda>m. sp2_idxs_of (n_atoms s) (atoms s) (aromatic_idxs s) (full_adjacency_map m)))
     = Some [0, 1, 1, 2, 3, 4, 5, 6]"
    by code_simp
  show "map_option (\<lambda>m. (length (filter (\<lambda>x. x \<noteq> 0) (concat m)), sum_list (concat m)))
        (Option.bind (read_smiles ''O=c1ccocc1'') resolve_aromatic) = Some (7, 11)"
    by code_simp
  show "map_option (\<lambda>m. filter (\<lambda>x. x \<noteq> 0) (concat m))
        (Option.bind (read_smiles ''O=c1ccocc1'') resolve_conjugate) = Some (replicate 7 (8 / 5))"
    by code_simp
  show "map_option (\<lambda>m. sum_list (concat m))
        (Option.bind (read_smiles ''O=c1ccocc1'') resolve_conjugate) = Some (56 / 5)"
    by code_simp
  show "(56 / 5 :: rat) \<noteq> 11"
    by simp
qed

end
